theory Spec2Isabelle
  imports Main "HOL-Library.AList"
begin

section \<open>Values, instances and the store\<close>

text \<open>
  The form builder of \<^verbatim>\<open>packages/forms/src/form_builder.ts\<close> receives arbitrary
  JavaScript values as child configurations and answers with references to control
  instances. A control instance has an identity, so instances live in a store and a value
  refers to one by its address. Arrays and plain objects are never mutated by the builder
  and are kept as immutable values; a plain object is the list of its own enumerable
  properties in the order \<^verbatim>\<open>Object.keys\<close> lists them, every key once.
\<close>

type_synonym ref = nat

datatype jsval =
    Undefined
  | Null
  | Bool bool
  | Num int
  | Str string
  | Fn nat
  | Arr "jsval list"
  | Obj "(string \<times> jsval) list"
  | Ctl ref

type_synonym jsobj = "(string \<times> jsval) list"

text \<open>
  The object literal \<^verbatim>\<open>{asyncValidators, updateOn, validators}\<close> that \<^verbatim>\<open>group\<close>
  hands to the \<^verbatim>\<open>FormGroup\<close> constructor.
\<close>

record abstractControlOptions =
  asyncValidators :: jsval
  updateOn :: jsval
  validators :: jsval

text \<open>
  The classes come from \<^verbatim>\<open>./model\<close>, which the builder only imports. An instance
  therefore records its class and the arguments its constructor was called with, under the
  parameter names the builder's own signatures use. \<^verbatim>\<open>AbstractControl\<close> is an exported
  abstract class: \<open>CustomControl\<close> stands for an instance of a subclass of it that derives
  from none of the three built-in classes.
\<close>

datatype control_instance =
    FormControl jsval jsval jsval
  | FormGroup jsobj abstractControlOptions
  | FormArray "jsval list" jsval jsval
  | CustomControl nat

type_synonym heap = "control_instance list"

definition lookup :: "heap \<Rightarrow> ref \<Rightarrow> control_instance option" where
  "lookup h r = (if r < length h then Some (h ! r) else None)"

text \<open>\<^verbatim>\<open>new C(...)\<close>: the instance is stored at the next unused address.\<close>

definition new :: "heap \<Rightarrow> control_instance \<Rightarrow> heap \<times> jsval" where
  "new h i = (h @ [i], Ctl (length h))"

text \<open>Property read \<^verbatim>\<open>o[k]\<close>: a property that is not there reads as \<^verbatim>\<open>undefined\<close>.\<close>

definition get_prop :: "jsobj \<Rightarrow> string \<Rightarrow> jsval" where
  "get_prop ob k = (case map_of ob k of None \<Rightarrow> Undefined | Some v \<Rightarrow> v)"

text \<open>Array read \<^verbatim>\<open>a[i]\<close>: past the end it is \<^verbatim>\<open>undefined\<close>.\<close>

definition js_index :: "jsval list \<Rightarrow> nat \<Rightarrow> jsval" where
  "js_index xs i = (if i < length xs then xs ! i else Undefined)"

text \<open>The loose comparison \<^verbatim>\<open>v != null\<close>, false for \<^verbatim>\<open>null\<close> and \<^verbatim>\<open>undefined\<close> alike.\<close>

fun neq_null :: "jsval \<Rightarrow> bool" where
  "neq_null Undefined = False"
| "neq_null Null = False"
| "neq_null _ = True"

definition object_keys :: "jsobj \<Rightarrow> string list" where
  "object_keys ob = map fst ob"

section \<open>The form builder\<close>

text \<open>
  \<^verbatim>\<open>
  function isAbstractControlOptions(options) {
    return options.asyncValidators !== undefined ||
        options.validators !== undefined ||
        options.updateOn !== undefined;
  }
  \<close>
\<close>

definition isAbstractControlOptions :: "jsobj \<Rightarrow> bool" where
  "isAbstractControlOptions options \<longleftrightarrow>
     get_prop options ''asyncValidators'' \<noteq> Undefined \<or>
     get_prop options ''validators'' \<noteq> Undefined \<or>
     get_prop options ''updateOn'' \<noteq> Undefined"

fun instanceof_FormControl :: "control_instance \<Rightarrow> bool" where
  "instanceof_FormControl (FormControl _ _ _) = True"
| "instanceof_FormControl _ = False"

fun instanceof_FormGroup :: "control_instance \<Rightarrow> bool" where
  "instanceof_FormGroup (FormGroup _ _) = True"
| "instanceof_FormGroup _ = False"

fun instanceof_FormArray :: "control_instance \<Rightarrow> bool" where
  "instanceof_FormArray (FormArray _ _ _) = True"
| "instanceof_FormArray _ = False"

text \<open>
  \<^verbatim>\<open>
  function isBuiltinControl(c) {
    return c instanceof FormControl || c instanceof FormGroup || c instanceof FormArray;
  }
  \<close>
  Only a reference to a stored instance can be an instance of a class.
\<close>

fun isBuiltinControl :: "heap \<Rightarrow> jsval \<Rightarrow> bool" where
  "isBuiltinControl h (Ctl r) =
     (case lookup h r of
        None \<Rightarrow> False
      | Some i \<Rightarrow> instanceof_FormControl i \<or> instanceof_FormGroup i \<or> instanceof_FormArray i)"
| "isBuiltinControl h _ = False"

text \<open>
  \<^verbatim>\<open>
  control(formState, validatorOrOpts?, asyncValidator?) {
    return new FormControl(formState, validatorOrOpts, asyncValidator);
  }
  \<close>
  An argument that is left out arrives as \<^verbatim>\<open>undefined\<close>.
\<close>

definition control :: "heap \<Rightarrow> jsval \<Rightarrow> jsval \<Rightarrow> jsval \<Rightarrow> heap \<times> jsval" where
  "control h formState validatorOrOpts asyncValidator =
     new h (FormControl formState validatorOrOpts asyncValidator)"

text \<open>
  \<^verbatim>\<open>
  _createControl(controlConfig) {
    if (isBuiltinControl(controlConfig)) {
      return controlConfig;
    } else if (Array.isArray(controlConfig)) {
      const value = controlConfig[0];
      const validator = controlConfig.length > 1 ? controlConfig[1]! : null;
      const asyncValidator = controlConfig.length > 2 ? controlConfig[2]! : null;
      return this.control(value, validator, asyncValidator);
    } else {
      return this.control(controlConfig);
    }
  }
  \<close>
  (An Isabelle name cannot begin with an underscore.) The result is a value: the
  configuration itself in the first branch, the reference to the new instance otherwise.
\<close>

definition createControl :: "heap \<Rightarrow> jsval \<Rightarrow> heap \<times> jsval" where
  "createControl h controlConfig =
     (if isBuiltinControl h controlConfig then (h, controlConfig)
      else
        (case controlConfig of
           Arr xs \<Rightarrow>
             (let val = js_index xs 0;
                  validator = (if length xs > 1 then js_index xs 1 else Null);
                  asyncValidator = (if length xs > 2 then js_index xs 2 else Null)
              in control h val validator asyncValidator)
         | _ \<Rightarrow> control h controlConfig Undefined Undefined))"

text \<open>
  \<^verbatim>\<open>
  _reduceControls(controlsConfig) {
    const controls = {};
    Object.keys(controlsConfig).forEach(controlName => {
      controls[controlName] = this._createControl(controlsConfig[controlName]);
    });
    return controls;
  }
  \<close>
  The loop runs over the keys with the store and the object under construction as its
  state.

  The assignment \<^verbatim>\<open>controls[controlName] = ...\<close> is \<open>set_prop\<close>. The object began as the
  literal \<^verbatim>\<open>{}\<close>, so it inherits the accessor \<^verbatim>\<open>__proto__\<close>: an assignment under that
  name runs the setter, which makes the value the prototype of the object and adds no
  property. Under any other name the value becomes an own property, at the place of the
  key when it is there already and last otherwise. The list holds own properties only, so
  the prototype is not in it. The classes of \<^verbatim>\<open>./model\<close> are taken to declare no accessor
  under a name of the configuration: with one in the new prototype, a later assignment
  under its name would run it instead.
\<close>

definition set_prop :: "jsobj \<Rightarrow> string \<Rightarrow> jsval \<Rightarrow> jsobj" where
  "set_prop ob k v = (if k = ''__proto__'' then ob else AList.update k v ob)"

fun reduceControls_loop ::
  "jsobj \<Rightarrow> string list \<Rightarrow> heap \<Rightarrow> jsobj \<Rightarrow> heap \<times> jsobj" where
  "reduceControls_loop controlsConfig [] h controls = (h, controls)"
| "reduceControls_loop controlsConfig (controlName # names) h controls =
     (case createControl h (get_prop controlsConfig controlName) of
        (h', r) \<Rightarrow>
          reduceControls_loop controlsConfig names h' (set_prop controls controlName r))"

definition reduceControls :: "heap \<Rightarrow> jsobj \<Rightarrow> heap \<times> jsobj" where
  "reduceControls h controlsConfig =
     reduceControls_loop controlsConfig (object_keys controlsConfig) h []"

text \<open>
  \<^verbatim>\<open>
  group(controlsConfig, options = null) {
    const controls = this._reduceControls(controlsConfig);
    let validators = null;
    let asyncValidators = null;
    let updateOn = undefined;
    if (options != null) {
      if (isAbstractControlOptions(options)) {
        validators = options.validators != null ? options.validators : null;
        asyncValidators = options.asyncValidators != null ? options.asyncValidators : null;
        updateOn = options.updateOn != null ? options.updateOn : undefined;
      } else {
        validators = options['validator'] != null ? options['validator'] : null;
        asyncValidators = options['asyncValidator'] != null ? options['asyncValidator'] : null;
      }
    }
    return new FormGroup(controls, {asyncValidators, updateOn, validators});
  }
  \<close>
  \<open>None\<close> is an \<^verbatim>\<open>options\<close> argument that is \<^verbatim>\<open>null\<close> or left out. The three
  local variables are computed by \<open>group_options\<close>; \<open>group\<close> is a constant of HOL already,
  hence the suffix.
\<close>

definition group_options :: "jsobj option \<Rightarrow> abstractControlOptions" where
  "group_options options =
     (case options of
        None \<Rightarrow> \<lparr>asyncValidators = Null, updateOn = Undefined, validators = Null\<rparr>
      | Some opts \<Rightarrow>
          if isAbstractControlOptions opts then
            \<lparr>asyncValidators =
               (if neq_null (get_prop opts ''asyncValidators'')
                then get_prop opts ''asyncValidators'' else Null),
             updateOn =
               (if neq_null (get_prop opts ''updateOn'')
                then get_prop opts ''updateOn'' else Undefined),
             validators =
               (if neq_null (get_prop opts ''validators'')
                then get_prop opts ''validators'' else Null)\<rparr>
          else
            \<lparr>asyncValidators =
               (if neq_null (get_prop opts ''asyncValidator'')
                then get_prop opts ''asyncValidator'' else Null),
             updateOn = Undefined,
             validators =
               (if neq_null (get_prop opts ''validator'')
                then get_prop opts ''validator'' else Null)\<rparr>)"

definition group_fb :: "heap \<Rightarrow> jsobj \<Rightarrow> jsobj option \<Rightarrow> heap \<times> jsval" where
  "group_fb h controlsConfig options =
     (case reduceControls h controlsConfig of
        (h', controls) \<Rightarrow> new h' (FormGroup controls (group_options options)))"

text \<open>
  \<^verbatim>\<open>
  array(controlsConfig, validatorOrOpts?, asyncValidator?) {
    const controls = controlsConfig.map(c => this._createControl(c));
    return new FormArray(controls, validatorOrOpts, asyncValidator);
  }
  \<close>
  \<^verbatim>\<open>map\<close> calls back in index order, so the store is threaded from left to right.
\<close>

fun array_map :: "heap \<Rightarrow> jsval list \<Rightarrow> heap \<times> jsval list" where
  "array_map h [] = (h, [])"
| "array_map h (c # cs) =
     (case createControl h c of
        (h', r) \<Rightarrow> (case array_map h' cs of (h'', rs) \<Rightarrow> (h'', r # rs)))"

definition array :: "heap \<Rightarrow> jsval list \<Rightarrow> jsval \<Rightarrow> jsval \<Rightarrow> heap \<times> jsval" where
  "array h controlsConfig validatorOrOpts asyncValidator =
     (case array_map h controlsConfig of
        (h', controls) \<Rightarrow> new h' (FormArray controls validatorOrOpts asyncValidator))"

section \<open>Observations on results\<close>

text \<open>\<^verbatim>\<open>Array.isArray\<close>.\<close>

fun isArray :: "jsval \<Rightarrow> bool" where
  "isArray (Arr _) = True"
| "isArray _ = False"

text \<open>
  A configuration is closed in a store when the reference it is, if it is one, points into
  the store: JavaScript has no dangling references.
\<close>

fun closed :: "heap \<Rightarrow> jsval \<Rightarrow> bool" where
  "closed h (Ctl r) = (r < length h)"
| "closed h _ = True"

text \<open>
  The \<^verbatim>\<open>FormControl\<close> that \<open>createControl\<close> constructs for a configuration it does not
  pass through (\<open>createControl_cases\<close> below): used to state what the loops allocate.
\<close>

definition leaf_of :: "jsval \<Rightarrow> control_instance" where
  "leaf_of c =
     (case c of
        Arr xs \<Rightarrow>
          FormControl (js_index xs 0)
            (if length xs > 1 then js_index xs 1 else Null)
            (if length xs > 2 then js_index xs 2 else Null)
      | _ \<Rightarrow> FormControl c Undefined Undefined)"

text \<open>
  Two results denote the same control relative to a store \<open>h\<close> when they are the same
  instance of \<open>h\<close> or, both constructed after \<open>h\<close>, instances of the same class built from
  the same constructor arguments.
\<close>

definition same_control :: "heap \<Rightarrow> heap \<times> jsval \<Rightarrow> heap \<times> jsval \<Rightarrow> bool" where
  "same_control h x y =
     (case (snd x, snd y) of
        (Ctl a, Ctl b) \<Rightarrow>
          if a < length h \<or> b < length h then a = b
          else lookup (fst x) a \<noteq> None \<and> lookup (fst x) a = lookup (fst y) b
      | _ \<Rightarrow> False)"

section \<open>The constructor as a parameter\<close>

text \<open>
  \<^verbatim>\<open>FormControl\<close> is constructed in \<^verbatim>\<open>./model\<close>. Above, a construction is recorded by
  its arguments. Whether the constructor throws on its arguments is not in the builder's
  source either: for the question which errors a construction can end in, it is the
  parameter \<open>throws\<close>, the error the constructor throws on these arguments, if any.
  \<open>ConfigurationError\<close> is the error of the specification (section 7), \<open>ConstructorError\<close>
  anything else that is thrown. \<open>control_with\<close> and \<open>createControl_with\<close> are \<open>control\<close>
  and \<open>createControl\<close> again, line for line, with the exception passing through them as it
  does through the two methods, which catch nothing.
\<close>

datatype construction_error = ConfigurationError | ConstructorError jsval

definition control_with ::
  "(jsval \<Rightarrow> jsval \<Rightarrow> jsval \<Rightarrow> construction_error option) \<Rightarrow>
   heap \<Rightarrow> jsval \<Rightarrow> jsval \<Rightarrow> jsval \<Rightarrow> construction_error + heap \<times> jsval" where
  "control_with throws h formState validatorOrOpts asyncValidator =
     (case throws formState validatorOrOpts asyncValidator of
        Some e \<Rightarrow> Inl e
      | None \<Rightarrow> Inr (new h (FormControl formState validatorOrOpts asyncValidator)))"

definition createControl_with ::
  "(jsval \<Rightarrow> jsval \<Rightarrow> jsval \<Rightarrow> construction_error option) \<Rightarrow>
   heap \<Rightarrow> jsval \<Rightarrow> construction_error + heap \<times> jsval" where
  "createControl_with throws h controlConfig =
     (if isBuiltinControl h controlConfig then Inr (h, controlConfig)
      else
        (case controlConfig of
           Arr xs \<Rightarrow>
             (let val = js_index xs 0;
                  validator = (if length xs > 1 then js_index xs 1 else Null);
                  asyncValidator = (if length xs > 2 then js_index xs 2 else Null)
              in control_with throws h val validator asyncValidator)
         | _ \<Rightarrow> control_with throws h controlConfig Undefined Undefined))"

section \<open>The control tree\<close>

text \<open>
  The controls themselves (\<^verbatim>\<open>AbstractControl\<close>, \<^verbatim>\<open>FormControl\<close>, \<^verbatim>\<open>FormGroup\<close>,
  \<^verbatim>\<open>FormArray\<close>) are defined in \<^verbatim>\<open>./model\<close>, of which the repository's sources hold only
  the importing builder and a test of the types. The tree of controls and its operations
  are therefore modelled from the specification, sections 2, 3 and 4.1; every definition
  of this section says which of its sentences it follows. Validators, errors, the
  interaction flags and the notifications have no influence on a value or on which
  children are enabled, and are left out. Section 4.1 names no operation that adds,
  removes or replaces a child: a composite keeps the children it was constructed with.
\<close>

text \<open>
  Modelled from the spec: the three node kinds of \<^verbatim>\<open>./model\<close> (section 3). A Leaf Control
  holds a value and no children; a Group Control holds ``a fixed, named mapping of child
  nodes'' in the declared order; a List Control holds ``an ordered sequence'' of them.
  Every node carries its current \<open>value\<close> and its own DISABLED flag (``DISABLED is an
  orthogonal flag'').
\<close>

datatype control =
    LeafControl jsval bool
  | GroupControl "(string \<times> control) list" jsval bool
  | ListControl "control list" jsval bool

text \<open>Modelled from the spec: the accessor \<open>value\<close> of a Control of \<^verbatim>\<open>./model\<close> (section 3).\<close>

fun value_of :: "control \<Rightarrow> jsval" where
  "value_of (LeafControl v d) = v"
| "value_of (GroupControl cs v d) = v"
| "value_of (ListControl cs v d) = v"

text \<open>Modelled from the spec: the DISABLED flag of a Control of \<^verbatim>\<open>./model\<close>, read and set.\<close>

fun flagged :: "control \<Rightarrow> bool" where
  "flagged (LeafControl v d) = d"
| "flagged (GroupControl cs v d) = d"
| "flagged (ListControl cs v d) = d"

fun set_flag :: "bool \<Rightarrow> control \<Rightarrow> control" where
  "set_flag b (LeafControl v d) = LeafControl v b"
| "set_flag b (GroupControl cs v d) = GroupControl cs v b"
| "set_flag b (ListControl cs v d) = ListControl cs v b"

text \<open>
  Modelled from the spec: when a child of \<^verbatim>\<open>./model\<close> counts as enabled (section 4.1):
  ``disabling a composite recursively disables all descendants; re-enabling restores the
  previous enabled subset''. A node is thus disabled when its own flag is set or when the
  composite that holds it is disabled; \<open>dis\<close> says whether that composite is.
\<close>

abbreviation enabled :: "bool \<Rightarrow> control \<Rightarrow> bool" where
  "enabled dis c \<equiv> \<not> dis \<and> \<not> flagged c"

text \<open>
  Modelled from the spec: the value a composite of \<^verbatim>\<open>./model\<close> computes from its children
  (section 3): for a group ``the mapping of \<^verbatim>\<open>{name: child.value}\<close> for every enabled child;
  disabled children are omitted''; for a list ``the sequence of \<^verbatim>\<open>child.value\<close> for every
  enabled child, in index order, with disabled children skipped''.
\<close>

definition group_value :: "bool \<Rightarrow> (string \<times> control) list \<Rightarrow> jsval" where
  "group_value dis cs =
     Obj (map (\<lambda>(k, c). (k, value_of c)) (filter (\<lambda>(k, c). enabled dis c) cs))"

definition list_value :: "bool \<Rightarrow> control list \<Rightarrow> jsval" where
  "list_value dis cs = Arr (map value_of (filter (\<lambda>c. enabled dis c) cs))"

text \<open>
  Modelled from the spec: the value step of \<^verbatim>\<open>updateValueAndValidity\<close> of \<^verbatim>\<open>./model\<close>
  (section 4.1), ``recompute value (composite pull)'', on one node. \<open>anc\<close> says whether
  an ancestor of the node is disabled.
\<close>

fun updateValue :: "bool \<Rightarrow> control \<Rightarrow> control" where
  "updateValue anc (LeafControl v d) = LeafControl v d"
| "updateValue anc (GroupControl cs v d) = GroupControl cs (group_value (anc \<or> d) cs) d"
| "updateValue anc (ListControl cs v d) = ListControl cs (list_value (anc \<or> d) cs) d"

text \<open>
  Modelled from the spec: what \<^verbatim>\<open>disable\<close> and \<^verbatim>\<open>enable\<close> of \<^verbatim>\<open>./model\<close> do below the
  node they toggle (section 4.1). The enabled state of every descendant changes with the
  node's, so every composite below recomputes its value, children before parents.
\<close>

fun refresh :: "bool \<Rightarrow> control \<Rightarrow> control" where
  "refresh anc (LeafControl v d) = LeafControl v d"
| "refresh anc (GroupControl cs v d) =
     updateValue anc (GroupControl (map (\<lambda>(k, c). (k, refresh (anc \<or> d) c)) cs) v d)"
| "refresh anc (ListControl cs v d) =
     updateValue anc (ListControl (map (refresh (anc \<or> d)) cs) v d)"

text \<open>
  Modelled from the spec: the failures of the operations of \<^verbatim>\<open>./model\<close>: the
  ShapeMismatch of \<^verbatim>\<open>setValue\<close> (section 7), and a path that leads to no control
  (\<^verbatim>\<open>get\<close> ``returns descendant Control or absent'').
\<close>

datatype failure = ShapeMismatch | Absent

text \<open>
  Modelled from the spec: \<^verbatim>\<open>setValue\<close> of \<^verbatim>\<open>./model\<close> (sections 4.1 and 7): it ``replaces
  the full value; for composites, requires \<open>v\<close> to supply every currently-enabled child's
  key/index (fails with a ShapeMismatch-class error otherwise); overwrites children's values
  synchronously, recomputes own value''; the mismatch is ``a value whose keys/indices do not
  exactly match the currently-enabled children''. For a list the indices are those of its
  value (the glossary's Shape: ``the index range a composite's value is expected to
  have''), so the enabled children take the elements in order. A failure below fails the
  whole call, which then applies nothing.
\<close>

fun setValue :: "bool \<Rightarrow> jsval \<Rightarrow> control \<Rightarrow> failure + control"
  and setValue_named ::
    "bool \<Rightarrow> jsobj \<Rightarrow> (string \<times> control) list \<Rightarrow> failure + (string \<times> control) list"
  and setValue_indexed :: "bool \<Rightarrow> jsval list \<Rightarrow> control list \<Rightarrow> failure + control list"
where
  "setValue anc x (LeafControl v d) = Inr (LeafControl x d)"
| "setValue anc x (GroupControl cs v d) =
     (case x of
        Obj kvs \<Rightarrow>
          if set (map fst kvs) = set (map fst (filter (\<lambda>(k, c). enabled (anc \<or> d) c) cs))
          then (case setValue_named (anc \<or> d) kvs cs of
                  Inl e \<Rightarrow> Inl e
                | Inr cs' \<Rightarrow> Inr (updateValue anc (GroupControl cs' v d)))
          else Inl ShapeMismatch
      | _ \<Rightarrow> Inl ShapeMismatch)"
| "setValue anc x (ListControl cs v d) =
     (case x of
        Arr xs \<Rightarrow>
          if length xs = length (filter (\<lambda>c. enabled (anc \<or> d) c) cs)
          then (case setValue_indexed (anc \<or> d) xs cs of
                  Inl e \<Rightarrow> Inl e
                | Inr cs' \<Rightarrow> Inr (updateValue anc (ListControl cs' v d)))
          else Inl ShapeMismatch
      | _ \<Rightarrow> Inl ShapeMismatch)"
| "setValue_named dis kvs [] = Inr []"
| "setValue_named dis kvs ((k, c) # cs) =
     (if dis \<or> flagged c then
        (case setValue_named dis kvs cs of
           Inl e \<Rightarrow> Inl e
         | Inr cs' \<Rightarrow> Inr ((k, c) # cs'))
      else
        (case setValue dis (get_prop kvs k) c of
           Inl e \<Rightarrow> Inl e
         | Inr c' \<Rightarrow>
             (case setValue_named dis kvs cs of
                Inl e \<Rightarrow> Inl e
              | Inr cs' \<Rightarrow> Inr ((k, c') # cs'))))"
| "setValue_indexed dis xs [] = Inr []"
| "setValue_indexed dis xs (c # cs) =
     (if dis \<or> flagged c then
        (case setValue_indexed dis xs cs of
           Inl e \<Rightarrow> Inl e
         | Inr cs' \<Rightarrow> Inr (c # cs'))
      else
        (case setValue dis (js_index xs 0) c of
           Inl e \<Rightarrow> Inl e
         | Inr c' \<Rightarrow>
             (case setValue_indexed dis (tl xs) cs of
                Inl e \<Rightarrow> Inl e
              | Inr cs' \<Rightarrow> Inr (c' # cs'))))"

text \<open>
  Modelled from the spec: \<^verbatim>\<open>patchValue\<close> of \<^verbatim>\<open>./model\<close> (section 4.1): ``like
  \<^verbatim>\<open>setValue\<close> but partial: any key/index in \<open>v\<close> updates the corresponding child;
  keys/indices absent from \<open>v\<close> are left unchanged; unknown keys are ignored (not an
  error)''. An index is a position in the sequence of children (section 3: ``index =
  position'').
\<close>

fun patchValue :: "bool \<Rightarrow> jsval \<Rightarrow> control \<Rightarrow> control"
  and patchValue_named ::
    "bool \<Rightarrow> jsobj \<Rightarrow> (string \<times> control) list \<Rightarrow> (string \<times> control) list"
  and patchValue_indexed :: "bool \<Rightarrow> jsval list \<Rightarrow> control list \<Rightarrow> control list"
where
  "patchValue anc x (LeafControl v d) = LeafControl x d"
| "patchValue anc x (GroupControl cs v d) =
     (case x of
        Obj kvs \<Rightarrow> updateValue anc (GroupControl (patchValue_named (anc \<or> d) kvs cs) v d)
      | _ \<Rightarrow> updateValue anc (GroupControl cs v d))"
| "patchValue anc x (ListControl cs v d) =
     (case x of
        Arr xs \<Rightarrow> updateValue anc (ListControl (patchValue_indexed (anc \<or> d) xs cs) v d)
      | _ \<Rightarrow> updateValue anc (ListControl cs v d))"
| "patchValue_named dis kvs [] = []"
| "patchValue_named dis kvs ((k, c) # cs) =
     (case map_of kvs k of
        None \<Rightarrow> (k, c) # patchValue_named dis kvs cs
      | Some x \<Rightarrow> (k, patchValue dis x c) # patchValue_named dis kvs cs)"
| "patchValue_indexed dis xs [] = []"
| "patchValue_indexed dis xs (c # cs) =
     (case xs of
        [] \<Rightarrow> c # cs
      | x # xs' \<Rightarrow> patchValue dis x c # patchValue_indexed dis xs' cs)"

text \<open>
  Modelled from the spec: the value part of \<^verbatim>\<open>reset\<close> of \<^verbatim>\<open>./model\<close> (section 4.1):
  it ``restores value (default or supplied)'', and afterwards the value is the supplied one
  ``modulo the enabled-subset projection for composites'' (section 8, property 5), so a
  composite hands every child its part of the supplied value, or none. The spec does not
  say what the default is: it is the parameter \<open>dflt\<close>.
\<close>

fun reset :: "bool \<Rightarrow> jsval \<Rightarrow> jsval option \<Rightarrow> control \<Rightarrow> control"
  and reset_named ::
    "bool \<Rightarrow> jsval \<Rightarrow> jsobj \<Rightarrow> (string \<times> control) list \<Rightarrow> (string \<times> control) list"
  and reset_indexed :: "bool \<Rightarrow> jsval \<Rightarrow> jsval list \<Rightarrow> control list \<Rightarrow> control list"
where
  "reset anc dflt x (LeafControl v d) =
     LeafControl (case x of None \<Rightarrow> dflt | Some y \<Rightarrow> y) d"
| "reset anc dflt x (GroupControl cs v d) =
     updateValue anc
       (GroupControl
          (reset_named (anc \<or> d) dflt (case x of Some (Obj kvs) \<Rightarrow> kvs | _ \<Rightarrow> []) cs) v d)"
| "reset anc dflt x (ListControl cs v d) =
     updateValue anc
       (ListControl
          (reset_indexed (anc \<or> d) dflt (case x of Some (Arr xs) \<Rightarrow> xs | _ \<Rightarrow> []) cs) v d)"
| "reset_named dis dflt kvs [] = []"
| "reset_named dis dflt kvs ((k, c) # cs) =
     (k, reset dis dflt (map_of kvs k) c) # reset_named dis dflt kvs cs"
| "reset_indexed dis dflt xs [] = []"
| "reset_indexed dis dflt xs (c # cs) =
     (case xs of
        [] \<Rightarrow> reset dis dflt None c # reset_indexed dis dflt [] cs
      | x # xs' \<Rightarrow> reset dis dflt (Some x) c # reset_indexed dis dflt xs' cs)"

text \<open>
  Modelled from the spec: the operations of a Control of \<^verbatim>\<open>./model\<close> that touch a value or
  a DISABLED flag (section 4.1), and what each does to the node it is called on.
  \<^verbatim>\<open>disable\<close> and \<^verbatim>\<open>enable\<close> ``toggle DISABLED status''; \<^verbatim>\<open>updateValueAndValidity\<close>
  carries the caller's ``self only'' request.
\<close>

datatype operation =
    SetValue jsval
  | PatchValue jsval
  | Reset jsval "jsval option"
  | Disable
  | Enable
  | UpdateValueAndValidity bool

fun apply_op :: "bool \<Rightarrow> operation \<Rightarrow> control \<Rightarrow> failure + control" where
  "apply_op anc (SetValue x) t = setValue anc x t"
| "apply_op anc (PatchValue x) t = Inr (patchValue anc x t)"
| "apply_op anc (Reset dflt x) t = Inr (reset anc dflt x t)"
| "apply_op anc Disable t = Inr (refresh anc (set_flag True t))"
| "apply_op anc Enable t = Inr (refresh anc (set_flag False t))"
| "apply_op anc (UpdateValueAndValidity selfOnly) t = Inr (updateValue anc t)"

fun self_only :: "operation \<Rightarrow> bool" where
  "self_only (UpdateValueAndValidity selfOnly) = selfOnly"
| "self_only _ = False"

text \<open>
  Modelled from the spec: \<^verbatim>\<open>get(path)\<close> of \<^verbatim>\<open>./model\<close> (section 4.1): the ``path is
  mapping-key or index, may be nested; returns descendant Control or absent''.
\<close>

datatype segment = Key string | Index nat

fun get :: "segment list \<Rightarrow> control \<Rightarrow> control option" where
  "get [] t = Some t"
| "get (Key k # p) (GroupControl cs v d) =
     (case map_of cs k of None \<Rightarrow> None | Some c \<Rightarrow> get p c)"
| "get (Index i # p) (ListControl cs v d) =
     (if i < length cs then get p (cs ! i) else None)"
| "get (s # p) t = None"

text \<open>
  Modelled from the spec: an operation called on the control at a path of a tree of
  \<^verbatim>\<open>./model\<close>, with the propagation of section 2: the ``node recomputes its own value
  [...], notifies its parent, parent recomputes its composite value from all children,
  propagation continues to the root''; only \<^verbatim>\<open>updateValueAndValidity\<close> can stay at the
  node (``unless the caller requests self only'').
\<close>

fun perform :: "bool \<Rightarrow> segment list \<Rightarrow> operation \<Rightarrow> control \<Rightarrow> failure + control" where
  "perform anc [] op t = apply_op anc op t"
| "perform anc (Key k # p) op (GroupControl cs v d) =
     (case map_of cs k of
        None \<Rightarrow> Inl Absent
      | Some c \<Rightarrow>
          (case perform (anc \<or> d) p op c of
             Inl e \<Rightarrow> Inl e
           | Inr c' \<Rightarrow>
               Inr (if self_only op then GroupControl (AList.update k c' cs) v d
                    else updateValue anc (GroupControl (AList.update k c' cs) v d))))"
| "perform anc (Index i # p) op (ListControl cs v d) =
     (if i < length cs then
        (case perform (anc \<or> d) p op (cs ! i) of
           Inl e \<Rightarrow> Inl e
         | Inr c' \<Rightarrow>
             Inr (if self_only op then ListControl (cs[i := c']) v d
                  else updateValue anc (ListControl (cs[i := c']) v d)))
      else Inl Absent)"
| "perform anc (s # p) op t = Inl Absent"

text \<open>
  Modelled from the spec: the constructors of \<^verbatim>\<open>./model\<close> (section 6): a leaf from an
  initial value or state (a value and a disabled flag), a group from named children, a list
  from ordered children; a composite computes its value when it is constructed (section 8,
  scenario 7).
\<close>

definition new_leaf :: "jsval \<Rightarrow> bool \<Rightarrow> control" where
  "new_leaf v d = LeafControl v d"

definition new_group :: "(string \<times> control) list \<Rightarrow> control" where
  "new_group cs = updateValue False (GroupControl cs Undefined False)"

definition new_list :: "control list \<Rightarrow> control" where
  "new_list cs = updateValue False (ListControl cs Undefined False)"

text \<open>
  Modelled from the spec: the states a tree of \<^verbatim>\<open>./model\<close> can reach (section 3,
  lifecycle): a control is constructed, a composite from controls that exist already and
  under names that differ, and then any operation is called on any control of the tree.
\<close>

inductive reachable :: "control \<Rightarrow> bool" where
  leaf: "reachable (new_leaf v d)"
| group: "distinct (map fst cs) \<Longrightarrow> (\<forall>c\<in>set (map snd cs). reachable c) \<Longrightarrow>
          reachable (new_group cs)"
| list: "(\<forall>c\<in>set cs. reachable c) \<Longrightarrow> reachable (new_list cs)"
| step: "reachable t \<Longrightarrow> perform False p op t = Inr t' \<Longrightarrow> reachable t'"

text \<open>
  Every control of a tree, each with whether one of its ancestors is disabled; the keys of
  an object value.
\<close>

fun subcontrols :: "bool \<Rightarrow> control \<Rightarrow> (bool \<times> control) list" where
  "subcontrols anc (LeafControl v d) = [(anc, LeafControl v d)]"
| "subcontrols anc (GroupControl cs v d) =
     (anc, GroupControl cs v d) # concat (map (\<lambda>(k, c). subcontrols (anc \<or> d) c) cs)"
| "subcontrols anc (ListControl cs v d) =
     (anc, ListControl cs v d) # concat (map (subcontrols (anc \<or> d)) cs)"

fun keys_of :: "jsval \<Rightarrow> string list" where
  "keys_of (Obj kvs) = object_keys kvs"
| "keys_of _ = []"

text \<open>
  The invariant of the proofs: every composite of the tree holds the value that its
  children give it; and the names of every group differ.
\<close>

fun consistent :: "bool \<Rightarrow> control \<Rightarrow> bool" where
  "consistent anc (LeafControl v d) = True"
| "consistent anc (GroupControl cs v d) =
     (v = group_value (anc \<or> d) cs \<and> (\<forall>(k, c)\<in>set cs. consistent (anc \<or> d) c))"
| "consistent anc (ListControl cs v d) =
     (v = list_value (anc \<or> d) cs \<and> (\<forall>c\<in>set cs. consistent (anc \<or> d) c))"

fun distinct_keys :: "control \<Rightarrow> bool" where
  "distinct_keys (LeafControl v d) = True"
| "distinct_keys (GroupControl cs v d) =
     (distinct (map fst cs) \<and> (\<forall>(k, c)\<in>set cs. distinct_keys c))"
| "distinct_keys (ListControl cs v d) = (\<forall>c\<in>set cs. distinct_keys c)"

text \<open>
  Modelled from the spec: the declared value shape of a control of \<^verbatim>\<open>./model\<close> (section 3:
  the value type is ``parameterized over the node's declared value shape''; the glossary's
  Shape: ``the set of keys (Group) or index range (List)''): a leaf's value is opaque, a
  group declares its keys, each with the shape of the child, a list the shapes of its
  elements.
\<close>

datatype shape = AnyShape | GroupShape "(string \<times> shape) list" | ListShape "shape list"

fun declared_shape :: "control \<Rightarrow> shape" where
  "declared_shape (LeafControl v d) = AnyShape"
| "declared_shape (GroupControl cs v d) =
     GroupShape (map (\<lambda>(k, c). (k, declared_shape c)) cs)"
| "declared_shape (ListControl cs v d) = ListShape (map declared_shape cs)"

text \<open>
  Modelled from the spec: the values of a shape, as the types of \<^verbatim>\<open>./model\<close> that the type
  test of the repository expects (\<^verbatim>\<open>Partial<{outer: Partial<{inner: string}>}>\<close> for a
  group of a group). A type is read as the set of the values it admits. With \<open>opt\<close> every
  key of every group is optional, which is \<^verbatim>\<open>Partial\<close> at every nesting level; without it
  every declared key has to be there, which is the declared shape itself. An array admits
  elements of the shapes of its elements.
\<close>

fun conforms :: "bool \<Rightarrow> shape \<Rightarrow> jsval \<Rightarrow> bool" where
  "conforms opt AnyShape v = True"
| "conforms opt (GroupShape fs) v =
     (case v of
        Obj kvs \<Rightarrow>
          distinct (map fst kvs) \<and> set (map fst kvs) \<subseteq> set (map fst fs) \<and>
          (\<forall>(k, s)\<in>set fs. case map_of kvs k of None \<Rightarrow> opt | Some x \<Rightarrow> conforms opt s x)
      | _ \<Rightarrow> False)"
| "conforms opt (ListShape ss) v =
     (case v of
        Arr xs \<Rightarrow> \<forall>x\<in>set xs. \<exists>s\<in>set ss. conforms opt s x
      | _ \<Rightarrow> False)"

section \<open>Lemmas on the builder\<close>

lemma createControl_cases:
  "createControl h c = (if isBuiltinControl h c then (h, c) else new h (leaf_of c))"
  by (cases c) (simp_all add: createControl_def control_def leaf_of_def Let_def)

lemma isBuiltinControl_Ctl:
  "isBuiltinControl h c \<Longrightarrow> \<exists>r. c = Ctl r \<and> r < length h"
  by (cases c) (simp_all add: lookup_def split: if_splits)

lemma isBuiltinControl_append:
  "isBuiltinControl h c \<Longrightarrow> isBuiltinControl (h @ ys) c"
  by (cases c) (simp_all add: lookup_def nth_append split: if_splits)

lemma isBuiltinControl_closed_append:
  "closed h c \<Longrightarrow> isBuiltinControl (h @ ys) c = isBuiltinControl h c"
  by (cases c) (simp_all add: lookup_def nth_append)

lemma closed_append: "closed h c \<Longrightarrow> closed (h @ ys) c"
  by (cases c) simp_all

lemma createControl_grows: "\<exists>ys. fst (createControl h c) = h @ ys"
  by (simp add: createControl_cases new_def)

lemma array_map_grows: "array_map h cs = (h', rs) \<Longrightarrow> \<exists>ys. h' = h @ ys"
proof (induction cs arbitrary: h h' rs)
  case Nil
  then show ?case by simp
next
  case (Cons c cs)
  obtain h1 r where cr: "createControl h c = (h1, r)" by (cases "createControl h c")
  obtain h2 rs' where am: "array_map h1 cs = (h2, rs')" by (cases "array_map h1 cs")
  from Cons.prems cr am have h': "h' = h2" by simp
  from createControl_grows [of h c] cr obtain ys where "h1 = h @ ys" by auto
  moreover from Cons.IH [OF am] obtain zs where "h2 = h1 @ zs" by auto
  ultimately show ?case using h' by simp
qed

lemma array_map_length: "array_map h cs = (h', rs) \<Longrightarrow> length rs = length cs"
  by (induction cs arbitrary: h h' rs) (auto split: prod.splits)

lemma array_map_builtin_nth:
  "array_map h cs = (h', rs) \<Longrightarrow> i < length cs \<Longrightarrow> isBuiltinControl h (cs ! i) \<Longrightarrow>
   rs ! i = cs ! i"
proof (induction cs arbitrary: h h' rs i)
  case Nil
  then show ?case by simp
next
  case (Cons c cs)
  obtain h1 r where cr: "createControl h c = (h1, r)" by (cases "createControl h c")
  obtain h2 rs' where am: "array_map h1 cs = (h2, rs')" by (cases "array_map h1 cs")
  from Cons.prems(1) cr am have rs: "rs = r # rs'" by simp
  show ?case
  proof (cases i)
    case 0
    with Cons.prems(3) cr rs show ?thesis by (simp add: createControl_cases)
  next
    case (Suc j)
    from createControl_grows [of h c] cr obtain ys where "h1 = h @ ys" by auto
    with Cons.prems(3) Suc have "isBuiltinControl h1 (cs ! j)"
      by (simp add: isBuiltinControl_append)
    with Cons.IH [OF am, of j] Cons.prems(2) Suc rs show ?thesis by simp
  qed
qed

lemma array_map_fresh_nth:
  "array_map h cs = (h', rs) \<Longrightarrow> \<forall>c\<in>set cs. closed h c \<Longrightarrow> i < length cs \<Longrightarrow>
   \<not> isBuiltinControl h (cs ! i) \<Longrightarrow>
   \<exists>a. rs ! i = Ctl a \<and> length h \<le> a \<and> a < length h' \<and> h' ! a = leaf_of (cs ! i)"
proof (induction cs arbitrary: h h' rs i)
  case Nil
  then show ?case by simp
next
  case (Cons c cs)
  obtain h1 r where cr: "createControl h c = (h1, r)" by (cases "createControl h c")
  obtain h2 rs' where am: "array_map h1 cs = (h2, rs')" by (cases "array_map h1 cs")
  from Cons.prems(1) cr am have rs: "rs = r # rs'" and h': "h' = h2" by simp_all
  from array_map_grows [OF am] obtain zs where h2: "h2 = h1 @ zs" by auto
  from createControl_grows [of h c] cr obtain ys where h1: "h1 = h @ ys" by auto
  show ?case
  proof (cases i)
    case 0
    with Cons.prems(4) cr have "h1 = h @ [leaf_of c]" "r = Ctl (length h)"
      by (simp_all add: createControl_cases new_def)
    with 0 rs h' h2 show ?thesis by (simp add: nth_append)
  next
    case (Suc j)
    from Cons.prems(2) h1 have cl: "\<forall>c\<in>set cs. closed h1 c"
      by (simp add: closed_append)
    from Cons.prems(2,3) Suc have "closed h (cs ! j)" by simp
    with Cons.prems(4) Suc h1 have nb: "\<not> isBuiltinControl h1 (cs ! j)"
      by (simp add: isBuiltinControl_closed_append)
    from Cons.prems(3) Suc have j: "j < length cs" by simp
    from Cons.IH [OF am cl j nb] obtain a where
      "rs' ! j = Ctl a" "length h1 \<le> a" "a < length h2" "h2 ! a = leaf_of (cs ! j)"
      by auto
    with Suc rs h' h1 show ?thesis by auto
  qed
qed

lemma array_map_same_control:
  assumes am: "array_map h cs = (h', rs)" and cl: "\<forall>c\<in>set cs. closed h c"
    and i: "i < length cs"
  shows "same_control h (createControl h (cs ! i)) (h', rs ! i)"
proof (cases "isBuiltinControl h (cs ! i)")
  case True
  from array_map_builtin_nth [OF am i True] have "rs ! i = cs ! i" .
  moreover from isBuiltinControl_Ctl [OF True] obtain r where "cs ! i = Ctl r" "r < length h"
    by auto
  ultimately show ?thesis using True
    by (simp add: same_control_def createControl_cases)
next
  case False
  from array_map_fresh_nth [OF am cl i False] obtain a where
    "rs ! i = Ctl a" "length h \<le> a" "a < length h'" "h' ! a = leaf_of (cs ! i)" by auto
  with False show ?thesis
    by (simp add: same_control_def createControl_cases new_def lookup_def)
qed

lemma update_fresh_key:
  "k \<notin> fst ` set acc \<Longrightarrow> AList.update k v acc = acc @ [(k, v)]"
  by (induction acc) auto

lemma reduceControls_loop_array_map:
  "distinct ks \<Longrightarrow> set ks \<inter> fst ` set acc = {} \<Longrightarrow>
   reduceControls_loop cfg ks h acc =
     (case array_map h (map (get_prop cfg) ks) of
        (h', rs) \<Rightarrow> (h', acc @ filter (\<lambda>(k, r). k \<noteq> ''__proto__'') (zip ks rs)))"
proof (induction ks arbitrary: h acc)
  case Nil
  then show ?case by simp
next
  case (Cons k ks)
  obtain h1 r where cr: "createControl h (get_prop cfg k) = (h1, r)"
    by (cases "createControl h (get_prop cfg k)")
  from Cons.prems have fresh: "k \<notin> fst ` set acc" by auto
  show ?case
  proof (cases "k = ''__proto__''")
    case True
    from Cons.prems have "distinct ks" "set ks \<inter> fst ` set acc = {}" by auto
    from Cons.IH [OF this] cr True show ?thesis
      by (simp add: set_prop_def split: prod.splits)
  next
    case False
    from Cons.prems have "distinct ks" "set ks \<inter> fst ` set (acc @ [(k, r)]) = {}" by auto
    from Cons.IH [OF this] cr fresh False show ?thesis
      by (simp add: set_prop_def update_fresh_key split: prod.splits)
  qed
qed

lemma get_prop_distinct:
  "distinct (map fst cfg) \<Longrightarrow> (k, v) \<in> set cfg \<Longrightarrow> get_prop cfg k = v"
  by (simp add: get_prop_def)

lemma get_prop_keys:
  "distinct (map fst cfg) \<Longrightarrow> map (get_prop cfg) (map fst cfg) = map snd cfg"
  by (auto simp: get_prop_distinct)

lemma reduceControls_array_map:
  "distinct (map fst cfg) \<Longrightarrow>
   reduceControls h cfg =
     (case array_map h (map snd cfg) of
        (h', rs) \<Rightarrow> (h', filter (\<lambda>(k, r). k \<noteq> ''__proto__'') (zip (map fst cfg) rs)))"
proof -
  assume d: "distinct (map fst cfg)"
  from d have "reduceControls_loop cfg (map fst cfg) h [] =
     (case array_map h (map (get_prop cfg) (map fst cfg)) of
        (h', rs) \<Rightarrow>
          (h', [] @ filter (\<lambda>(k, r). k \<noteq> ''__proto__'') (zip (map fst cfg) rs)))"
    by (intro reduceControls_loop_array_map) simp_all
  then show ?thesis
    by (simp only: reduceControls_def object_keys_def get_prop_keys [OF d] append_Nil)
qed

lemma group_fb_shape:
  assumes d: "distinct (map fst cfg)" and am: "array_map h (map snd cfg) = (h1, rs)"
  shows "group_fb h cfg opts =
           (h1 @ [FormGroup (filter (\<lambda>(k, r). k \<noteq> ''__proto__'') (zip (map fst cfg) rs))
                    (group_options opts)],
            Ctl (length h1))"
  using am by (simp add: group_fb_def reduceControls_array_map [OF d] new_def)

lemma array_shape:
  assumes am: "array_map h cs = (h1, rs)"
  shows "array h cs v a = (h1 @ [FormArray rs v a], Ctl (length h1))"
  using am by (simp add: array_def new_def)

subsection \<open>One instance for every child\<close>

lemma array_map_fresh_address:
  "array_map h cs = (h', rs) \<Longrightarrow> \<forall>c\<in>set cs. closed h c \<Longrightarrow> i < length cs \<Longrightarrow>
   \<not> isBuiltinControl h (cs ! i) \<Longrightarrow>
   rs ! i = Ctl (length h + length (filter (\<lambda>c. \<not> isBuiltinControl h c) (take i cs)))"
proof (induction cs arbitrary: h h' rs i)
  case Nil
  then show ?case by simp
next
  case (Cons c cs)
  obtain h1 r where cr: "createControl h c = (h1, r)" by (cases "createControl h c")
  obtain h2 rs' where am: "array_map h1 cs = (h2, rs')" by (cases "array_map h1 cs")
  from Cons.prems(1) cr am have rs: "rs = r # rs'" by simp
  show ?case
  proof (cases i)
    case 0
    with Cons.prems(4) cr rs show ?thesis
      by (simp add: createControl_cases new_def)
  next
    case (Suc j)
    from cr have h1: "h1 = (if isBuiltinControl h c then h else h @ [leaf_of c])"
      by (simp add: createControl_cases new_def split: if_splits)
    then obtain ys where ys: "h1 = h @ ys" by (cases "isBuiltinControl h c") simp_all
    from Cons.prems(2) ys have cl: "\<forall>c\<in>set cs. closed h1 c"
      by (simp add: closed_append)
    from Cons.prems(2) ys have same: "\<forall>c\<in>set cs. isBuiltinControl h1 c = isBuiltinControl h c"
      by (simp add: isBuiltinControl_closed_append)
    from Cons.prems(3) Suc have j: "j < length cs" by simp
    with same Cons.prems(4) Suc have nb: "\<not> isBuiltinControl h1 (cs ! j)" by simp
    have "filter (\<lambda>c. \<not> isBuiltinControl h1 c) (take j cs) =
          filter (\<lambda>c. \<not> isBuiltinControl h c) (take j cs)"
      using same by (intro filter_cong) (auto dest: in_set_takeD)
    with Cons.IH [OF am cl j nb] have
      "rs' ! j = Ctl (length h1 + length (filter (\<lambda>c. \<not> isBuiltinControl h c) (take j cs)))"
      by simp
    with Suc rs h1 show ?thesis by simp
  qed
qed

lemma array_map_heap_length:
  "array_map h cs = (h', rs) \<Longrightarrow> \<forall>c\<in>set cs. closed h c \<Longrightarrow>
   length h' = length h + length (filter (\<lambda>c. \<not> isBuiltinControl h c) cs)"
proof (induction cs arbitrary: h h' rs)
  case Nil
  then show ?case by simp
next
  case (Cons c cs)
  obtain h1 r where cr: "createControl h c = (h1, r)" by (cases "createControl h c")
  obtain h2 rs' where am: "array_map h1 cs = (h2, rs')" by (cases "array_map h1 cs")
  from Cons.prems(1) cr am have h': "h' = h2" by simp
  from cr have h1: "h1 = (if isBuiltinControl h c then h else h @ [leaf_of c])"
    by (simp add: createControl_cases new_def split: if_splits)
  then obtain ys where ys: "h1 = h @ ys" by (cases "isBuiltinControl h c") simp_all
  from Cons.prems(2) ys have cl: "\<forall>c\<in>set cs. closed h1 c"
    by (simp add: closed_append)
  from Cons.prems(2) ys have same: "\<forall>c\<in>set cs. isBuiltinControl h1 c = isBuiltinControl h c"
    by (simp add: isBuiltinControl_closed_append)
  have "filter (\<lambda>c. \<not> isBuiltinControl h1 c) cs = filter (\<lambda>c. \<not> isBuiltinControl h c) cs"
    using same by (intro filter_cong) auto
  with Cons.IH [OF am cl] h' h1 show ?case by simp
qed

lemma filter_take_mono:
  assumes "i < j" "j \<le> length cs" "P (cs ! i)"
  shows "length (filter P (take i cs)) < length (filter P (take j cs))"
proof -
  from assms(1,2) have i: "i < length cs" by simp
  from assms(1) have "take j cs = take i cs @ take (j - i) (drop i cs)"
    by (metis add_diff_inverse_nat less_imp_le_nat not_less take_add)
  moreover from assms(1) i have "take (j - i) (drop i cs) = cs ! i # take (j - i - 1) (drop (Suc i) cs)"
    by (metis Cons_nth_drop_Suc Suc_diff_Suc diff_Suc_1 take_Suc_Cons zero_less_diff diff_zero)
  ultimately show ?thesis using assms(3) by simp
qed

lemma array_map_fresh_distinct:
  assumes am: "array_map h cs = (h', rs)" and cl: "\<forall>c\<in>set cs. closed h c"
    and ij: "i < j" "j < length cs"
    and nb: "\<not> isBuiltinControl h (cs ! i)" "\<not> isBuiltinControl h (cs ! j)"
  shows "rs ! i \<noteq> rs ! j"
proof -
  from ij have i: "i < length cs" by simp
  from filter_take_mono [of i j cs "\<lambda>c. \<not> isBuiltinControl h c"] ij nb(1)
  have "length (filter (\<lambda>c. \<not> isBuiltinControl h c) (take i cs)) <
        length (filter (\<lambda>c. \<not> isBuiltinControl h c) (take j cs))" by simp
  with array_map_fresh_address [OF am cl i nb(1)] array_map_fresh_address [OF am cl ij(2) nb(2)]
  show ?thesis by simp
qed

subsection \<open>Normalization per child\<close>

text \<open>
  For a list of closed configurations, and for a configuration object with closed entries
  and without the key \<^verbatim>\<open>__proto__\<close>, normalization is applied to each child on its own:
  the controls have the indices, or the keys in their order, of the configuration, each with
  the control that \<open>createControl\<close> yields for that entry alone; two entries that are not
  passed through get two instances; one instance is constructed for every entry that is
  not passed through and none else, and the instances of the store the call starts from
  are unchanged.
\<close>

lemma zip_without_proto:
  "''__proto__'' \<notin> set ks \<Longrightarrow> filter (\<lambda>(k, r). k \<noteq> ''__proto__'') (zip ks rs) = zip ks rs"
  by (rule filter_True) (auto dest: set_zip_leftD)

lemma normalization_per_child:
  assumes d: "distinct (map fst cfg)" and np: "''__proto__'' \<notin> set (map fst cfg)"
    and clg: "\<forall>c\<in>set (map snd cfg). closed h c"
    and cla: "\<forall>c\<in>set cs. closed h c"
  shows "(\<exists>h1 controls.
            group_fb h cfg opts =
              (h1 @ [FormGroup controls (group_options opts)], Ctl (length h1)) \<and>
            map fst controls = map fst cfg \<and>
            (\<forall>i<length cfg.
               same_control h (createControl h (snd (cfg ! i))) (h1, snd (controls ! i))) \<and>
            (\<forall>i j. i < j \<and> j < length cfg \<and> \<not> isBuiltinControl h (snd (cfg ! i)) \<and>
               \<not> isBuiltinControl h (snd (cfg ! j)) \<longrightarrow>
               snd (controls ! i) \<noteq> snd (controls ! j)) \<and>
            take (length h) h1 = h \<and>
            length h1 =
              length h + length (filter (\<lambda>c. \<not> isBuiltinControl h c) (map snd cfg))) \<and>
         (\<exists>h1 controls.
            array h cs v a = (h1 @ [FormArray controls v a], Ctl (length h1)) \<and>
            length controls = length cs \<and>
            (\<forall>i<length cs. same_control h (createControl h (cs ! i)) (h1, controls ! i)) \<and>
            (\<forall>i j. i < j \<and> j < length cs \<and> \<not> isBuiltinControl h (cs ! i) \<and>
               \<not> isBuiltinControl h (cs ! j) \<longrightarrow>
               controls ! i \<noteq> controls ! j) \<and>
            take (length h) h1 = h \<and>
            length h1 = length h + length (filter (\<lambda>c. \<not> isBuiltinControl h c) cs))"
proof
  obtain h1 rs where am: "array_map h (map snd cfg) = (h1, rs)"
    by (cases "array_map h (map snd cfg)")
  let ?controls = "zip (map fst cfg) rs"
  from array_map_length [OF am] have len: "length rs = length cfg" by simp
  from array_map_grows [OF am] have pre: "take (length h) h1 = h" by auto
  from group_fb_shape [OF d am] zip_without_proto [OF np]
  have g: "group_fb h cfg opts =
             (h1 @ [FormGroup ?controls (group_options opts)], Ctl (length h1))"
    by simp
  have keys: "map fst ?controls = map fst cfg"
    using len by (simp add: map_fst_zip)
  have each: "\<forall>i<length cfg.
      same_control h (createControl h (snd (cfg ! i))) (h1, snd (?controls ! i))"
  proof (intro allI impI)
    fix i assume i: "i < length cfg"
    then have "same_control h (createControl h (map snd cfg ! i)) (h1, rs ! i)"
      using array_map_same_control [OF am clg, of i] by simp
    with i len show
      "same_control h (createControl h (snd (cfg ! i))) (h1, snd (?controls ! i))"
      by simp
  qed
  have own: "\<forall>i j. i < j \<and> j < length cfg \<and> \<not> isBuiltinControl h (snd (cfg ! i)) \<and>
               \<not> isBuiltinControl h (snd (cfg ! j)) \<longrightarrow>
               snd (?controls ! i) \<noteq> snd (?controls ! j)"
  proof (intro allI impI)
    fix i j
    assume a: "i < j \<and> j < length cfg \<and> \<not> isBuiltinControl h (snd (cfg ! i)) \<and>
               \<not> isBuiltinControl h (snd (cfg ! j))"
    then have "rs ! i \<noteq> rs ! j"
      using array_map_fresh_distinct [OF am clg, of i j] by simp
    with a len show "snd (?controls ! i) \<noteq> snd (?controls ! j)" by simp
  qed
  from g keys each own pre array_map_heap_length [OF am clg]
  show "\<exists>h1 controls.
            group_fb h cfg opts =
              (h1 @ [FormGroup controls (group_options opts)], Ctl (length h1)) \<and>
            map fst controls = map fst cfg \<and>
            (\<forall>i<length cfg.
               same_control h (createControl h (snd (cfg ! i))) (h1, snd (controls ! i))) \<and>
            (\<forall>i j. i < j \<and> j < length cfg \<and> \<not> isBuiltinControl h (snd (cfg ! i)) \<and>
               \<not> isBuiltinControl h (snd (cfg ! j)) \<longrightarrow>
               snd (controls ! i) \<noteq> snd (controls ! j)) \<and>
            take (length h) h1 = h \<and>
            length h1 =
              length h + length (filter (\<lambda>c. \<not> isBuiltinControl h c) (map snd cfg))"
    by blast
next
  obtain h1 rs where am: "array_map h cs = (h1, rs)" by (cases "array_map h cs")
  from array_map_grows [OF am] have pre: "take (length h) h1 = h" by auto
  have each: "\<forall>i<length cs. same_control h (createControl h (cs ! i)) (h1, rs ! i)"
    using array_map_same_control [OF am cla] by simp
  have own: "\<forall>i j. i < j \<and> j < length cs \<and> \<not> isBuiltinControl h (cs ! i) \<and>
               \<not> isBuiltinControl h (cs ! j) \<longrightarrow> rs ! i \<noteq> rs ! j"
    using array_map_fresh_distinct [OF am cla] by blast
  from array_shape [OF am] array_map_length [OF am] each own pre
    array_map_heap_length [OF am cla]
  show "\<exists>h1 controls.
            array h cs v a = (h1 @ [FormArray controls v a], Ctl (length h1)) \<and>
            length controls = length cs \<and>
            (\<forall>i<length cs. same_control h (createControl h (cs ! i)) (h1, controls ! i)) \<and>
            (\<forall>i j. i < j \<and> j < length cs \<and> \<not> isBuiltinControl h (cs ! i) \<and>
               \<not> isBuiltinControl h (cs ! j) \<longrightarrow>
               controls ! i \<noteq> controls ! j) \<and>
            take (length h) h1 = h \<and>
            length h1 = length h + length (filter (\<lambda>c. \<not> isBuiltinControl h c) cs)"
    by blast
qed

subsection \<open>The constructor as a parameter\<close>

lemma createControl_with_never:
  "createControl_with (\<lambda>s v a. None) h c = Inr (createControl h c)"
  by (cases c) (simp_all add: createControl_with_def createControl_def control_with_def
       control_def Let_def)

lemma createControl_with_Inr:
  "createControl_with throws h c = Inr r \<Longrightarrow> r = createControl h c"
  by (cases c)
     (auto simp: createControl_with_def createControl_def control_with_def control_def Let_def
        split: if_splits option.splits)

section \<open>Lemmas on the control tree\<close>

subsection \<open>Recomputation\<close>

lemma updateValue_consistent: "consistent anc t \<Longrightarrow> updateValue anc t = t"
  by (cases t) simp_all

lemma flagged_updateValue [simp]: "flagged (updateValue anc t) = flagged t"
  by (cases t) simp_all

lemma distinct_keys_updateValue [simp]: "distinct_keys (updateValue anc t) = distinct_keys t"
  by (cases t) simp_all

lemma distinct_keys_set_flag [simp]: "distinct_keys (set_flag b t) = distinct_keys t"
  by (cases t) simp_all

lemma refresh_consistent: "consistent anc (refresh anc t)"
  by (induction anc t rule: refresh.induct) auto

lemma refresh_distinct_keys: "distinct_keys (refresh anc t) = distinct_keys t"
  by (induction anc t rule: refresh.induct) (auto simp: comp_def case_prod_unfold)

subsection \<open>Value operations\<close>

lemma setValue_group_Inr:
  "setValue anc x (GroupControl cs v d) = Inr t' \<Longrightarrow>
   \<exists>kvs cs'. x = Obj kvs \<and> setValue_named (anc \<or> d) kvs cs = Inr cs' \<and>
     t' = updateValue anc (GroupControl cs' v d)"
  by (auto split: jsval.splits if_splits sum.splits)

lemma setValue_list_Inr:
  "setValue anc x (ListControl cs v d) = Inr t' \<Longrightarrow>
   \<exists>xs cs'. x = Arr xs \<and> setValue_indexed (anc \<or> d) xs cs = Inr cs' \<and>
     t' = updateValue anc (ListControl cs' v d)"
  by (auto split: jsval.splits if_splits sum.splits)

lemma setValue_named_Cons_Inr:
  "setValue_named dis kvs ((k, c) # cs) = Inr ncs' \<Longrightarrow>
   \<exists>c' cs'. ncs' = (k, c') # cs' \<and> setValue_named dis kvs cs = Inr cs' \<and>
     (c' = c \<or> setValue dis (get_prop kvs k) c = Inr c')"
  by (auto split: if_splits sum.splits)

lemma setValue_indexed_Cons_Inr:
  "setValue_indexed dis xs (c # cs) = Inr ics' \<Longrightarrow>
   \<exists>c' cs' xs'. ics' = c' # cs' \<and> setValue_indexed dis xs' cs = Inr cs' \<and>
     (c' = c \<or> setValue dis (js_index xs 0) c = Inr c')"
  by (auto split: if_splits sum.splits)

lemma setValue_named_keys:
  "setValue_named dis kvs ncs = Inr ncs' \<Longrightarrow> map fst ncs' = map fst ncs"
proof (induction ncs arbitrary: ncs')
  case Nil
  then show ?case by simp
next
  case (Cons p ncs)
  obtain k c where p: "p = (k, c)" by (cases p)
  from Cons.prems p obtain c' cs' where "ncs' = (k, c') # cs'"
    "setValue_named dis kvs ncs = Inr cs'"
    using setValue_named_Cons_Inr by blast
  with Cons.IH [of cs'] p show ?case by simp
qed

lemma setValue_named_pointwise:
  assumes "setValue_named dis kvs ncs = Inr ncs'"
    and "\<And>k c x c'. (k, c) \<in> set ncs \<Longrightarrow> setValue dis x c = Inr c' \<Longrightarrow> Q c \<Longrightarrow> Q c'"
    and "\<forall>(k, c)\<in>set ncs. Q c"
  shows "\<forall>(k, c)\<in>set ncs'. Q c"
  using assms
proof (induction ncs arbitrary: ncs')
  case Nil
  then show ?case by simp
next
  case (Cons p ncs)
  obtain k c where p: "p = (k, c)" by (cases p)
  from Cons.prems(1) p obtain c' cs' where r: "ncs' = (k, c') # cs'"
    and rest: "setValue_named dis kvs ncs = Inr cs'"
    and hd: "c' = c \<or> setValue dis (get_prop kvs k) c = Inr c'"
    using setValue_named_Cons_Inr by blast
  from Cons.prems(3) p have qc: "Q c" by simp
  from hd qc Cons.prems(2) [of k c "get_prop kvs k" c'] p have "Q c'" by auto
  moreover have "\<forall>(k, c)\<in>set cs'. Q c"
  proof (rule Cons.IH [OF rest])
    fix k c x c'
    assume "(k, c) \<in> set ncs" "setValue dis x c = Inr c'" "Q c"
    then show "Q c'" using Cons.prems(2) [of k c x c'] by simp
  next
    from Cons.prems(3) show "\<forall>(k, c)\<in>set ncs. Q c" by simp
  qed
  ultimately show ?case using r by simp
qed

lemma setValue_indexed_pointwise:
  assumes "setValue_indexed dis xs ics = Inr ics'"
    and "\<And>c x c'. c \<in> set ics \<Longrightarrow> setValue dis x c = Inr c' \<Longrightarrow> Q c \<Longrightarrow> Q c'"
    and "\<forall>c\<in>set ics. Q c"
  shows "\<forall>c\<in>set ics'. Q c"
  using assms
proof (induction ics arbitrary: ics' xs)
  case Nil
  then show ?case by simp
next
  case (Cons c ics)
  from Cons.prems(1) obtain c' cs' xs' where r: "ics' = c' # cs'"
    and rest: "setValue_indexed dis xs' ics = Inr cs'"
    and hd: "c' = c \<or> setValue dis (js_index xs 0) c = Inr c'"
    using setValue_indexed_Cons_Inr by blast
  from Cons.prems(3) have qc: "Q c" by simp
  from hd qc Cons.prems(2) [of c "js_index xs 0" c'] have "Q c'" by auto
  moreover have "\<forall>c\<in>set cs'. Q c"
  proof (rule Cons.IH [OF rest])
    fix c x c'
    assume "c \<in> set ics" "setValue dis x c = Inr c'" "Q c"
    then show "Q c'" using Cons.prems(2) [of c x c'] by simp
  next
    from Cons.prems(3) show "\<forall>c\<in>set ics. Q c" by simp
  qed
  ultimately show ?case using r by simp
qed

lemma setValue_consistent:
  "setValue anc x t = Inr t' \<Longrightarrow> consistent anc t \<Longrightarrow> consistent anc t'"
proof (induction t arbitrary: anc x t')
  case (LeafControl v d)
  then show ?case by auto
next
  case (GroupControl cs v d)
  from GroupControl.prems(1) obtain kvs cs' where
    sn: "setValue_named (anc \<or> d) kvs cs = Inr cs'"
    and t': "t' = updateValue anc (GroupControl cs' v d)"
    using setValue_group_Inr by blast
  have "\<forall>(k, c)\<in>set cs'. consistent (anc \<or> d) c"
  proof (rule setValue_named_pointwise [OF sn])
    fix k c x c'
    assume "(k, c) \<in> set cs" "setValue (anc \<or> d) x c = Inr c'" "consistent (anc \<or> d) c"
    then show "consistent (anc \<or> d) c'"
      using GroupControl.IH [of "(k, c)" c "anc \<or> d" x c'] by simp
  next
    from GroupControl.prems(2) show "\<forall>(k, c)\<in>set cs. consistent (anc \<or> d) c" by simp
  qed
  then show ?case using t' by simp
next
  case (ListControl cs v d)
  from ListControl.prems(1) obtain xs cs' where
    sn: "setValue_indexed (anc \<or> d) xs cs = Inr cs'"
    and t': "t' = updateValue anc (ListControl cs' v d)"
    using setValue_list_Inr by blast
  have "\<forall>c\<in>set cs'. consistent (anc \<or> d) c"
  proof (rule setValue_indexed_pointwise [OF sn])
    fix c x c'
    assume "c \<in> set cs" "setValue (anc \<or> d) x c = Inr c'" "consistent (anc \<or> d) c"
    then show "consistent (anc \<or> d) c'"
      using ListControl.IH [of c "anc \<or> d" x c'] by simp
  next
    from ListControl.prems(2) show "\<forall>c\<in>set cs. consistent (anc \<or> d) c" by simp
  qed
  then show ?case using t' by simp
qed

lemma setValue_distinct_keys:
  "setValue anc x t = Inr t' \<Longrightarrow> distinct_keys t \<Longrightarrow> distinct_keys t'"
proof (induction t arbitrary: anc x t')
  case (LeafControl v d)
  then show ?case by auto
next
  case (GroupControl cs v d)
  from GroupControl.prems(1) obtain kvs cs' where
    sn: "setValue_named (anc \<or> d) kvs cs = Inr cs'"
    and t': "t' = updateValue anc (GroupControl cs' v d)"
    using setValue_group_Inr by blast
  have "\<forall>(k, c)\<in>set cs'. distinct_keys c"
  proof (rule setValue_named_pointwise [OF sn])
    fix k c x c'
    assume "(k, c) \<in> set cs" "setValue (anc \<or> d) x c = Inr c'" "distinct_keys c"
    then show "distinct_keys c'"
      using GroupControl.IH [of "(k, c)" c "anc \<or> d" x c'] by simp
  next
    from GroupControl.prems(2) show "\<forall>(k, c)\<in>set cs. distinct_keys c" by simp
  qed
  moreover from setValue_named_keys [OF sn] GroupControl.prems(2)
  have "distinct (map fst cs')" by simp
  ultimately show ?case using t' by simp
next
  case (ListControl cs v d)
  from ListControl.prems(1) obtain xs cs' where
    sn: "setValue_indexed (anc \<or> d) xs cs = Inr cs'"
    and t': "t' = updateValue anc (ListControl cs' v d)"
    using setValue_list_Inr by blast
  have "\<forall>c\<in>set cs'. distinct_keys c"
  proof (rule setValue_indexed_pointwise [OF sn])
    fix c x c'
    assume "c \<in> set cs" "setValue (anc \<or> d) x c = Inr c'" "distinct_keys c"
    then show "distinct_keys c'"
      using ListControl.IH [of c "anc \<or> d" x c'] by simp
  next
    from ListControl.prems(2) show "\<forall>c\<in>set cs. distinct_keys c" by simp
  qed
  then show ?case using t' by simp
qed

lemma patchValue_named_keys [simp]:
  "map fst (patchValue_named dis kvs ncs) = map fst ncs"
  by (induction ncs) (auto split: option.splits)

lemma reset_named_keys [simp]:
  "map fst (reset_named dis dflt kvs ncs) = map fst ncs"
  by (induction ncs) auto

lemma patchValue_named_pointwise:
  "\<forall>(k, c)\<in>set ncs. Q c \<and> (\<forall>x. Q (patchValue dis x c)) \<Longrightarrow>
   \<forall>(k, c)\<in>set (patchValue_named dis kvs ncs). Q c"
  by (induction ncs) (auto split: option.splits)

lemma patchValue_indexed_pointwise:
  "\<forall>c\<in>set ics. Q c \<and> (\<forall>x. Q (patchValue dis x c)) \<Longrightarrow>
   \<forall>c\<in>set (patchValue_indexed dis xs ics). Q c"
  by (induction ics arbitrary: xs) (auto split: list.splits)

lemma reset_named_pointwise:
  "\<forall>(k, c)\<in>set ncs. \<forall>x. Q (reset dis dflt x c) \<Longrightarrow>
   \<forall>(k, c)\<in>set (reset_named dis dflt kvs ncs). Q c"
  by (induction ncs) auto

lemma reset_indexed_pointwise:
  "\<forall>c\<in>set ics. \<forall>x. Q (reset dis dflt x c) \<Longrightarrow>
   \<forall>c\<in>set (reset_indexed dis dflt xs ics). Q c"
  by (induction ics arbitrary: xs) (auto split: list.splits)

lemma patchValue_consistent: "consistent anc t \<Longrightarrow> consistent anc (patchValue anc x t)"
proof (induction t arbitrary: anc x)
  case (LeafControl v d)
  then show ?case by simp
next
  case (GroupControl cs v d)
  have "\<forall>(k, c)\<in>set cs. consistent (anc \<or> d) c \<and> (\<forall>x. consistent (anc \<or> d) (patchValue (anc \<or> d) x c))"
    using GroupControl.IH GroupControl.prems by fastforce
  from patchValue_named_pointwise [where Q = "consistent (anc \<or> d)", OF this]
  show ?case using GroupControl.prems by (simp split: jsval.splits)
next
  case (ListControl cs v d)
  have "\<forall>c\<in>set cs. consistent (anc \<or> d) c \<and> (\<forall>x. consistent (anc \<or> d) (patchValue (anc \<or> d) x c))"
    using ListControl.IH ListControl.prems by fastforce
  from patchValue_indexed_pointwise [where Q = "consistent (anc \<or> d)", OF this]
  show ?case using ListControl.prems by (simp split: jsval.splits)
qed

lemma patchValue_distinct_keys: "distinct_keys t \<Longrightarrow> distinct_keys (patchValue anc x t)"
proof (induction t arbitrary: anc x)
  case (LeafControl v d)
  then show ?case by simp
next
  case (GroupControl cs v d)
  have "\<forall>(k, c)\<in>set cs. distinct_keys c \<and> (\<forall>x. distinct_keys (patchValue (anc \<or> d) x c))"
    using GroupControl.IH GroupControl.prems by fastforce
  from patchValue_named_pointwise [where Q = distinct_keys, OF this]
  show ?case using GroupControl.prems by (simp split: jsval.splits)
next
  case (ListControl cs v d)
  have "\<forall>c\<in>set cs. distinct_keys c \<and> (\<forall>x. distinct_keys (patchValue (anc \<or> d) x c))"
    using ListControl.IH ListControl.prems by fastforce
  from patchValue_indexed_pointwise [where Q = distinct_keys, OF this]
  show ?case using ListControl.prems by (simp split: jsval.splits)
qed

lemma reset_consistent: "consistent anc t \<Longrightarrow> consistent anc (reset anc dflt x t)"
proof (induction t arbitrary: anc x)
  case (LeafControl v d)
  then show ?case by simp
next
  case (GroupControl cs v d)
  have "\<forall>(k, c)\<in>set cs. \<forall>x. consistent (anc \<or> d) (reset (anc \<or> d) dflt x c)"
    using GroupControl.IH GroupControl.prems by fastforce
  from reset_named_pointwise [where Q = "consistent (anc \<or> d)", OF this]
  show ?case by simp
next
  case (ListControl cs v d)
  have "\<forall>c\<in>set cs. \<forall>x. consistent (anc \<or> d) (reset (anc \<or> d) dflt x c)"
    using ListControl.IH ListControl.prems by fastforce
  from reset_indexed_pointwise [where Q = "consistent (anc \<or> d)", OF this]
  show ?case by simp
qed

lemma reset_distinct_keys: "distinct_keys t \<Longrightarrow> distinct_keys (reset anc dflt x t)"
proof (induction t arbitrary: anc x)
  case (LeafControl v d)
  then show ?case by simp
next
  case (GroupControl cs v d)
  have "\<forall>(k, c)\<in>set cs. \<forall>x. distinct_keys (reset (anc \<or> d) dflt x c)"
    using GroupControl.IH GroupControl.prems by fastforce
  from reset_named_pointwise [where Q = distinct_keys, OF this]
  show ?case using GroupControl.prems by simp
next
  case (ListControl cs v d)
  have "\<forall>c\<in>set cs. \<forall>x. distinct_keys (reset (anc \<or> d) dflt x c)"
    using ListControl.IH ListControl.prems by fastforce
  from reset_indexed_pointwise [where Q = distinct_keys, OF this]
  show ?case by simp
qed

lemma apply_op_consistent:
  "apply_op anc op t = Inr t' \<Longrightarrow> consistent anc t \<Longrightarrow> consistent anc t'"
  by (cases op)
     (auto simp: setValue_consistent patchValue_consistent reset_consistent
        refresh_consistent updateValue_consistent)

lemma apply_op_distinct_keys:
  "apply_op anc op t = Inr t' \<Longrightarrow> distinct_keys t \<Longrightarrow> distinct_keys t'"
  by (cases op)
     (auto simp: setValue_distinct_keys patchValue_distinct_keys reset_distinct_keys
        refresh_distinct_keys)

subsection \<open>Operations at a path, and the invariant\<close>

lemma perform_self_only:
  "perform anc p op t = Inr t' \<Longrightarrow> self_only op \<Longrightarrow> consistent anc t \<Longrightarrow> t' = t"
proof (induction anc p op t arbitrary: t' rule: perform.induct)
  case (1 anc op t)
  then show ?case by (cases op) (simp_all add: updateValue_consistent)
next
  case (2 anc k p op cs v d)
  from "2.prems"(1) obtain c c' where c: "map_of cs k = Some c"
    and pc: "perform (anc \<or> d) p op c = Inr c'"
    and t': "t' = GroupControl (AList.update k c' cs) v d"
    using "2.prems"(2) by (auto split: option.splits sum.splits)
  from c have "(k, c) \<in> set cs" by (rule map_of_SomeD)
  with "2.prems"(3) have "consistent (anc \<or> d) c" by auto
  from "2.IH" [OF c pc "2.prems"(2) this] have "c' = c" .
  with c t' show ?case by (simp add: update_triv)
next
  case (3 anc i p op cs v d)
  from "3.prems"(1) obtain c' where i: "i < length cs"
    and pc: "perform (anc \<or> d) p op (cs ! i) = Inr c'"
    and t': "t' = ListControl (cs[i := c']) v d"
    using "3.prems"(2) by (auto split: if_splits sum.splits)
  from i "3.prems"(3) have "consistent (anc \<or> d) (cs ! i)" by simp
  from "3.IH" [OF i pc "3.prems"(2) this] have "c' = cs ! i" .
  with t' show ?case by simp
qed simp_all

lemma perform_consistent:
  "perform anc p op t = Inr t' \<Longrightarrow> consistent anc t \<Longrightarrow> consistent anc t'"
proof (cases "self_only op")
  case True
  assume "perform anc p op t = Inr t'" "consistent anc t"
  with True show ?thesis using perform_self_only by blast
next
  case False
  assume "perform anc p op t = Inr t'" "consistent anc t"
  then show ?thesis using False
  proof (induction anc p op t arbitrary: t' rule: perform.induct)
    case (1 anc op t)
    then show ?case by (simp add: apply_op_consistent)
  next
    case (2 anc k p op cs v d)
    from "2.prems"(1,3) obtain c c' where c: "map_of cs k = Some c"
      and pc: "perform (anc \<or> d) p op c = Inr c'"
      and t': "t' = updateValue anc (GroupControl (AList.update k c' cs) v d)"
      by (auto split: option.splits sum.splits)
    from c have "(k, c) \<in> set cs" by (rule map_of_SomeD)
    with "2.prems"(2) have "consistent (anc \<or> d) c" by auto
    from "2.IH" [OF c pc this "2.prems"(3)] have c': "consistent (anc \<or> d) c'" .
    have "set (AList.update k c' cs) \<subseteq> insert (k, c') (set cs)"
      by (induction cs) auto
    with c' "2.prems"(2) have "\<forall>(j, x)\<in>set (AList.update k c' cs). consistent (anc \<or> d) x"
      by auto
    with t' show ?case by simp
  next
    case (3 anc i p op cs v d)
    from "3.prems"(1,3) obtain c' where i: "i < length cs"
      and pc: "perform (anc \<or> d) p op (cs ! i) = Inr c'"
      and t': "t' = updateValue anc (ListControl (cs[i := c']) v d)"
      by (auto split: if_splits sum.splits)
    from i "3.prems"(2) have "consistent (anc \<or> d) (cs ! i)" by simp
    from "3.IH" [OF i pc this "3.prems"(3)] have c': "consistent (anc \<or> d) c'" .
    have "set (cs[i := c']) \<subseteq> insert c' (set cs)" by (rule set_update_subset_insert)
    with c' "3.prems"(2) have "\<forall>x\<in>set (cs[i := c']). consistent (anc \<or> d) x"
      by auto
    with t' show ?case by simp
  qed simp_all
qed

lemma perform_distinct_keys:
  "perform anc p op t = Inr t' \<Longrightarrow> distinct_keys t \<Longrightarrow> distinct_keys t'"
proof (induction anc p op t arbitrary: t' rule: perform.induct)
  case (1 anc op t)
  then show ?case by (simp add: apply_op_distinct_keys)
next
  case (2 anc k p op cs v d)
  from "2.prems"(1) obtain c c' where c: "map_of cs k = Some c"
    and pc: "perform (anc \<or> d) p op c = Inr c'"
    and t': "t' = GroupControl (AList.update k c' cs) v d \<or>
             t' = updateValue anc (GroupControl (AList.update k c' cs) v d)"
    by (auto split: option.splits sum.splits if_splits)
  from c have kc: "(k, c) \<in> set cs" by (rule map_of_SomeD)
  with "2.prems"(2) have "distinct_keys c" by auto
  from "2.IH" [OF c pc this] have c': "distinct_keys c'" .
  have "set (AList.update k c' cs) \<subseteq> insert (k, c') (set cs)"
    by (induction cs) auto
  with c' "2.prems"(2) have "\<forall>(j, x)\<in>set (AList.update k c' cs). distinct_keys x"
    by auto
  moreover from kc have "map fst (AList.update k c' cs) = map fst cs"
    by (force simp: update_keys)
  ultimately show ?case using t' "2.prems"(2) by auto
next
  case (3 anc i p op cs v d)
  from "3.prems"(1) obtain c' where i: "i < length cs"
    and pc: "perform (anc \<or> d) p op (cs ! i) = Inr c'"
    and t': "t' = ListControl (cs[i := c']) v d \<or>
             t' = updateValue anc (ListControl (cs[i := c']) v d)"
    by (auto split: if_splits sum.splits)
  from i "3.prems"(2) have "distinct_keys (cs ! i)" by simp
  from "3.IH" [OF i pc this] have c': "distinct_keys c'" .
  have "set (cs[i := c']) \<subseteq> insert c' (set cs)" by (rule set_update_subset_insert)
  with c' "3.prems"(2) have "\<forall>x\<in>set (cs[i := c']). distinct_keys x"
    by auto
  with t' show ?case by auto
qed simp_all

lemma reachable_invariant: "reachable t \<Longrightarrow> consistent False t \<and> distinct_keys t"
proof (induction rule: reachable.induct)
  case (leaf v d)
  then show ?case by (simp add: new_leaf_def)
next
  case (group cs)
  then show ?case by (auto simp: new_group_def)
next
  case (list cs)
  then show ?case by (auto simp: new_list_def)
next
  case (step t p op t')
  then show ?case by (auto intro: perform_consistent perform_distinct_keys)
qed

lemma subcontrols_group:
  "(a, n) \<in> set (subcontrols anc (GroupControl cs v d)) \<Longrightarrow>
   (a, n) = (anc, GroupControl cs v d) \<or>
   (\<exists>k c. (k, c) \<in> set cs \<and> (a, n) \<in> set (subcontrols (anc \<or> d) c))"
  by auto

lemma subcontrols_list:
  "(a, n) \<in> set (subcontrols anc (ListControl cs v d)) \<Longrightarrow>
   (a, n) = (anc, ListControl cs v d) \<or>
   (\<exists>c. c \<in> set cs \<and> (a, n) \<in> set (subcontrols (anc \<or> d) c))"
  by auto

lemma consistent_subcontrols:
  "consistent anc t \<Longrightarrow> (a, n) \<in> set (subcontrols anc t) \<Longrightarrow> consistent a n"
proof (induction t arbitrary: anc)
  case (LeafControl v d)
  then show ?case by auto
next
  case (GroupControl cs v d)
  from subcontrols_group [OF GroupControl.prems(2)] show ?case
  proof
    assume "(a, n) = (anc, GroupControl cs v d)"
    with GroupControl.prems(1) show ?thesis by simp
  next
    assume "\<exists>k c. (k, c) \<in> set cs \<and> (a, n) \<in> set (subcontrols (anc \<or> d) c)"
    then obtain k c where kc: "(k, c) \<in> set cs"
      and sub: "(a, n) \<in> set (subcontrols (anc \<or> d) c)" by blast
    from kc GroupControl.prems(1) have "consistent (anc \<or> d) c" by auto
    from GroupControl.IH [of "(k, c)" c, OF kc _ this sub] show ?thesis by simp
  qed
next
  case (ListControl cs v d)
  from subcontrols_list [OF ListControl.prems(2)] show ?case
  proof
    assume "(a, n) = (anc, ListControl cs v d)"
    with ListControl.prems(1) show ?thesis by simp
  next
    assume "\<exists>c. c \<in> set cs \<and> (a, n) \<in> set (subcontrols (anc \<or> d) c)"
    then obtain c where c: "c \<in> set cs"
      and sub: "(a, n) \<in> set (subcontrols (anc \<or> d) c)" by blast
    from c ListControl.prems(1) have "consistent (anc \<or> d) c" by auto
    from ListControl.IH [OF c this sub] show ?thesis .
  qed
qed

lemma distinct_keys_subcontrols:
  "distinct_keys t \<Longrightarrow> (a, n) \<in> set (subcontrols anc t) \<Longrightarrow> distinct_keys n"
proof (induction t arbitrary: anc)
  case (LeafControl v d)
  then show ?case by auto
next
  case (GroupControl cs v d)
  from subcontrols_group [OF GroupControl.prems(2)] show ?case
  proof
    assume "(a, n) = (anc, GroupControl cs v d)"
    with GroupControl.prems(1) show ?thesis by simp
  next
    assume "\<exists>k c. (k, c) \<in> set cs \<and> (a, n) \<in> set (subcontrols (anc \<or> d) c)"
    then obtain k c where kc: "(k, c) \<in> set cs"
      and sub: "(a, n) \<in> set (subcontrols (anc \<or> d) c)" by blast
    from kc GroupControl.prems(1) have "distinct_keys c" by auto
    from GroupControl.IH [of "(k, c)" c, OF kc _ this sub] show ?thesis by simp
  qed
next
  case (ListControl cs v d)
  from subcontrols_list [OF ListControl.prems(2)] show ?case
  proof
    assume "(a, n) = (anc, ListControl cs v d)"
    with ListControl.prems(1) show ?thesis by simp
  next
    assume "\<exists>c. c \<in> set cs \<and> (a, n) \<in> set (subcontrols (anc \<or> d) c)"
    then obtain c where c: "c \<in> set cs"
      and sub: "(a, n) \<in> set (subcontrols (anc \<or> d) c)" by blast
    from c ListControl.prems(1) have "distinct_keys c" by auto
    from ListControl.IH [OF c this sub] show ?thesis .
  qed
qed

lemma disabled_key_absent:
  assumes d: "distinct (map fst cs)" and kc: "(k, c) \<in> set cs" and f: "dis \<or> flagged c"
  shows "k \<notin> set (keys_of (group_value dis cs))"
proof
  assume "k \<in> set (keys_of (group_value dis cs))"
  then obtain c' where c': "(k, c') \<in> set cs" "\<not> dis \<and> \<not> flagged c'"
    by (auto simp: group_value_def object_keys_def)
  from eq_key_imp_eq_value [OF d c'(1) kc] have "c' = c" .
  with c'(2) f show False by simp
qed

subsection \<open>Shapes\<close>

lemma conforms_value:
  "consistent anc t \<Longrightarrow> distinct_keys t \<Longrightarrow> conforms True (declared_shape t) (value_of t)"
proof (induction t arbitrary: anc)
  case (LeafControl v d)
  then show ?case by simp
next
  case (GroupControl cs v d)
  let ?en = "filter (\<lambda>(k, c). \<not> (anc \<or> d) \<and> \<not> flagged c) cs"
  let ?kvs = "map (\<lambda>(k, c). (k, value_of c)) ?en"
  from GroupControl.prems have v: "v = Obj ?kvs" and d: "distinct (map fst cs)"
    by (simp_all add: group_value_def)
  have keys: "map fst ?kvs = map fst ?en"
    by (simp add: comp_def case_prod_unfold)
  from d have dk: "distinct (map fst ?kvs)"
    unfolding keys by (rule distinct_map_filter)
  have sub: "set (map fst ?kvs) \<subseteq> set (map fst (map (\<lambda>(k, c). (k, declared_shape c)) cs))"
    unfolding keys by (auto simp: comp_def case_prod_unfold)
  have each: "\<forall>(k, s)\<in>set (map (\<lambda>(k, c). (k, declared_shape c)) cs).
                case map_of ?kvs k of None \<Rightarrow> True | Some x \<Rightarrow> conforms True s x"
  proof (clarify)
    fix k s
    assume "(k, s) \<in> set (map (\<lambda>(k, c). (k, declared_shape c)) cs)"
    then obtain c where kc: "(k, c) \<in> set cs" and s: "s = declared_shape c" by auto
    show "case map_of ?kvs k of None \<Rightarrow> True | Some x \<Rightarrow> conforms True s x"
    proof (cases "map_of ?kvs k")
      case None
      then show ?thesis by simp
    next
      case (Some x)
      then have "(k, x) \<in> set ?kvs" by (rule map_of_SomeD)
      then obtain c' where c': "(k, c') \<in> set cs" and x: "x = value_of c'" by auto
      from eq_key_imp_eq_value [OF d c' kc] have "c' = c" .
      moreover from kc GroupControl.prems have "consistent (anc \<or> d) c" "distinct_keys c"
        by auto
      then have "conforms True (declared_shape c) (value_of c)"
        using GroupControl.IH [of "(k, c)" c "anc \<or> d"] kc by simp
      ultimately show ?thesis using Some s x by simp
    qed
  qed
  from dk sub each show ?case by (simp add: v)
next
  case (ListControl cs v d)
  from ListControl.prems have v: "v = list_value (anc \<or> d) cs" by simp
  have "\<forall>x\<in>set (map value_of (filter (\<lambda>c. \<not> (anc \<or> d) \<and> \<not> flagged c) cs)).
          \<exists>s\<in>set (map declared_shape cs). conforms True s x"
  proof
    fix x
    assume "x \<in> set (map value_of (filter (\<lambda>c. \<not> (anc \<or> d) \<and> \<not> flagged c) cs))"
    then obtain c where c: "c \<in> set cs" and x: "x = value_of c" by auto
    from c ListControl.prems have "consistent (anc \<or> d) c" "distinct_keys c" by auto
    with ListControl.IH [OF c] have "conforms True (declared_shape c) (value_of c)" by simp
    with c x show "\<exists>s\<in>set (map declared_shape cs). conforms True s x" by auto
  qed
  then show ?case by (simp add: v list_value_def)
qed

lemma missing_key_not_full:
  assumes "k \<in> set (map fst cs)" and "k \<notin> set (keys_of v)"
  shows "\<not> conforms False (declared_shape (GroupControl cs v d)) v"
proof (cases v)
  case (Obj kvs)
  from assms(1) obtain c where kc: "(k, c) \<in> set cs" by auto
  then have "(k, declared_shape c) \<in> set (map (\<lambda>(k, c). (k, declared_shape c)) cs)"
    by force
  moreover from assms(2) Obj have "map_of kvs k = None"
    by (simp add: object_keys_def map_of_eq_None_iff)
  ultimately show ?thesis using Obj by fastforce
qed simp_all

lemma declared_shape_updateValue [simp]:
  "declared_shape (updateValue anc t) = declared_shape t"
  by (cases t) simp_all

lemma declared_shape_set_flag [simp]: "declared_shape (set_flag b t) = declared_shape t"
  by (cases t) simp_all

lemma declared_shape_refresh [simp]: "declared_shape (refresh anc t) = declared_shape t"
  by (induction anc t rule: refresh.induct) (auto simp: comp_def case_prod_unfold)

lemma setValue_named_map:
  "setValue_named dis kvs ncs = Inr ncs' \<Longrightarrow>
   \<forall>(k, c)\<in>set ncs. \<forall>x c'. setValue dis x c = Inr c' \<longrightarrow> f c' = f c \<Longrightarrow>
   map (\<lambda>(k, c). (k, f c)) ncs' = map (\<lambda>(k, c). (k, f c)) ncs"
proof (induction ncs arbitrary: ncs')
  case Nil
  then show ?case by simp
next
  case (Cons p ncs)
  obtain k c where p: "p = (k, c)" by (cases p)
  from Cons.prems(1) p obtain c' cs' where r: "ncs' = (k, c') # cs'"
    and rest: "setValue_named dis kvs ncs = Inr cs'"
    and hd: "c' = c \<or> setValue dis (get_prop kvs k) c = Inr c'"
    using setValue_named_Cons_Inr by blast
  from hd Cons.prems(2) p have "f c' = f c" by auto
  moreover from Cons.IH [OF rest] Cons.prems(2)
  have "map (\<lambda>(k, c). (k, f c)) cs' = map (\<lambda>(k, c). (k, f c)) ncs" by simp
  ultimately show ?case using r p by simp
qed

lemma setValue_indexed_map:
  "setValue_indexed dis xs ics = Inr ics' \<Longrightarrow>
   \<forall>c\<in>set ics. \<forall>x c'. setValue dis x c = Inr c' \<longrightarrow> f c' = f c \<Longrightarrow>
   map f ics' = map f ics"
proof (induction ics arbitrary: ics' xs)
  case Nil
  then show ?case by simp
next
  case (Cons c ics)
  from Cons.prems(1) obtain c' cs' xs' where r: "ics' = c' # cs'"
    and rest: "setValue_indexed dis xs' ics = Inr cs'"
    and hd: "c' = c \<or> setValue dis (js_index xs 0) c = Inr c'"
    using setValue_indexed_Cons_Inr by blast
  from hd Cons.prems(2) have "f c' = f c" by auto
  moreover from Cons.IH [OF rest] Cons.prems(2) have "map f cs' = map f ics" by simp
  ultimately show ?case using r by simp
qed

lemma patchValue_named_map:
  "\<forall>(k, c)\<in>set ncs. \<forall>x. f (patchValue dis x c) = f c \<Longrightarrow>
   map (\<lambda>(k, c). (k, f c)) (patchValue_named dis kvs ncs) = map (\<lambda>(k, c). (k, f c)) ncs"
  by (induction ncs) (auto split: option.splits)

lemma patchValue_indexed_map:
  "\<forall>c\<in>set ics. \<forall>x. f (patchValue dis x c) = f c \<Longrightarrow>
   map f (patchValue_indexed dis xs ics) = map f ics"
  by (induction ics arbitrary: xs) (auto split: list.splits)

lemma reset_named_map:
  "\<forall>(k, c)\<in>set ncs. \<forall>x. f (reset dis dflt x c) = f c \<Longrightarrow>
   map (\<lambda>(k, c). (k, f c)) (reset_named dis dflt kvs ncs) = map (\<lambda>(k, c). (k, f c)) ncs"
  by (induction ncs) auto

lemma reset_indexed_map:
  "\<forall>c\<in>set ics. \<forall>x. f (reset dis dflt x c) = f c \<Longrightarrow>
   map f (reset_indexed dis dflt xs ics) = map f ics"
  by (induction ics arbitrary: xs) (auto split: list.splits)

lemma setValue_shape: "setValue anc x t = Inr t' \<Longrightarrow> declared_shape t' = declared_shape t"
proof (induction t arbitrary: anc x t')
  case (LeafControl v d)
  then show ?case by auto
next
  case (GroupControl cs v d)
  from GroupControl.prems(1) obtain kvs cs' where
    sn: "setValue_named (anc \<or> d) kvs cs = Inr cs'"
    and t': "t' = updateValue anc (GroupControl cs' v d)"
    using setValue_group_Inr by blast
  have "\<forall>(k, c)\<in>set cs. \<forall>x c'. setValue (anc \<or> d) x c = Inr c' \<longrightarrow>
          declared_shape c' = declared_shape c"
    using GroupControl.IH by fastforce
  from setValue_named_map [OF sn this] t' show ?case by simp
next
  case (ListControl cs v d)
  from ListControl.prems(1) obtain xs cs' where
    sn: "setValue_indexed (anc \<or> d) xs cs = Inr cs'"
    and t': "t' = updateValue anc (ListControl cs' v d)"
    using setValue_list_Inr by blast
  have "\<forall>c\<in>set cs. \<forall>x c'. setValue (anc \<or> d) x c = Inr c' \<longrightarrow>
          declared_shape c' = declared_shape c"
    using ListControl.IH by fastforce
  from setValue_indexed_map [OF sn this] t' show ?case by simp
qed

lemma patchValue_shape: "declared_shape (patchValue anc x t) = declared_shape t"
proof (induction t arbitrary: anc x)
  case (LeafControl v d)
  then show ?case by simp
next
  case (GroupControl cs v d)
  have "\<forall>(k, c)\<in>set cs. \<forall>x. declared_shape (patchValue (anc \<or> d) x c) = declared_shape c"
    using GroupControl.IH by fastforce
  from patchValue_named_map [where f = declared_shape, OF this]
  show ?case by (simp split: jsval.splits)
next
  case (ListControl cs v d)
  have "\<forall>c\<in>set cs. \<forall>x. declared_shape (patchValue (anc \<or> d) x c) = declared_shape c"
    using ListControl.IH by fastforce
  from patchValue_indexed_map [where f = declared_shape, OF this]
  show ?case by (simp split: jsval.splits)
qed

lemma reset_shape: "declared_shape (reset anc dflt x t) = declared_shape t"
proof (induction t arbitrary: anc x)
  case (LeafControl v d)
  then show ?case by simp
next
  case (GroupControl cs v d)
  have "\<forall>(k, c)\<in>set cs. \<forall>x. declared_shape (reset (anc \<or> d) dflt x c) = declared_shape c"
    using GroupControl.IH by fastforce
  from reset_named_map [where f = declared_shape, OF this]
  show ?case by simp
next
  case (ListControl cs v d)
  have "\<forall>c\<in>set cs. \<forall>x. declared_shape (reset (anc \<or> d) dflt x c) = declared_shape c"
    using ListControl.IH by fastforce
  from reset_indexed_map [where f = declared_shape, OF this]
  show ?case by simp
qed

lemma apply_op_shape: "apply_op anc op t = Inr t' \<Longrightarrow> declared_shape t' = declared_shape t"
  by (cases op) (auto simp: setValue_shape patchValue_shape reset_shape)

lemma update_same_shape:
  "map_of cs k = Some c \<Longrightarrow> f c' = f c \<Longrightarrow>
   map (\<lambda>(k, c). (k, f c)) (AList.update k c' cs) = map (\<lambda>(k, c). (k, f c)) cs"
  by (induction cs) (auto split: if_splits)

lemma perform_shape: "perform anc p op t = Inr t' \<Longrightarrow> declared_shape t' = declared_shape t"
proof (induction anc p op t arbitrary: t' rule: perform.induct)
  case (1 anc op t)
  then show ?case by (simp add: apply_op_shape)
next
  case (2 anc k p op cs v d)
  from "2.prems" obtain c c' where c: "map_of cs k = Some c"
    and pc: "perform (anc \<or> d) p op c = Inr c'"
    and t': "t' = GroupControl (AList.update k c' cs) v d \<or>
             t' = updateValue anc (GroupControl (AList.update k c' cs) v d)"
    by (auto split: option.splits sum.splits if_splits)
  from "2.IH" [OF c pc] have "declared_shape c' = declared_shape c" .
  from update_same_shape [OF c this] t' show ?case by auto
next
  case (3 anc i p op cs v d)
  from "3.prems" obtain c' where i: "i < length cs"
    and pc: "perform (anc \<or> d) p op (cs ! i) = Inr c'"
    and t': "t' = ListControl (cs[i := c']) v d \<or>
             t' = updateValue anc (ListControl (cs[i := c']) v d)"
    by (auto split: if_splits sum.splits)
  from "3.IH" [OF i pc] have "declared_shape c' = declared_shape (cs ! i)" .
  then have "map declared_shape (cs[i := c']) = map declared_shape cs"
    by (simp add: map_update list_update_same_conv i)
  with t' show ?case by auto
qed simp_all

lemma flagged_set_flag [simp]: "flagged (set_flag b t) = b"
  by (cases t) simp_all

lemma flagged_refresh [simp]: "flagged (refresh anc t) = flagged t"
  by (cases t) simp_all

lemma get_updateValue_Cons [simp]: "get (s # p) (updateValue anc t) = get (s # p) t"
  by (cases t; cases s) simp_all

lemma update_mem: "(k, v) \<in> set (AList.update k v al)"
  by (induction al) auto

lemma map_of_update_same:
  "map_of (AList.update k v al) k = Some v"
  by (simp add: update_conv')

lemma perform_disable_child:
  assumes "distinct_keys t" and "get p t = Some (GroupControl cs v d)"
    and "k \<in> set (map fst cs)"
  shows "\<exists>t' cs' v' d'. perform anc (p @ [Key k]) Disable t = Inr t' \<and>
           get p t' = Some (GroupControl cs' v' d') \<and> map fst cs' = map fst cs \<and>
           k \<notin> set (keys_of v')"
  using assms
proof (induction p arbitrary: t anc)
  case Nil
  then have t: "t = GroupControl cs v d" by simp
  from Nil.prems(3) obtain c where c: "map_of cs k = Some c"
    by (cases "map_of cs k") (auto simp: map_of_eq_None_iff)
  let ?c' = "refresh (anc \<or> d) (set_flag True c)"
  let ?cs' = "AList.update k ?c' cs"
  from c have keys: "map fst ?cs' = map fst cs"
    by (force simp: update_keys dest: map_of_SomeD)
  with Nil.prems(1) t have "distinct (map fst ?cs')" by simp
  from disabled_key_absent [OF this update_mem, of "anc \<or> d"]
  have "k \<notin> set (keys_of (group_value (anc \<or> d) ?cs'))" by simp
  with c t keys show ?case by simp
next
  case (Cons s p)
  show ?case
  proof (cases t)
    case (LeafControl v0 d0)
    with Cons.prems(2) show ?thesis by simp
  next
    case (GroupControl cs0 v0 d0)
    with Cons.prems(2) obtain j c0 where s: "s = Key j" and c0: "map_of cs0 j = Some c0"
      and g: "get p c0 = Some (GroupControl cs v d)"
      by (cases s) (auto split: option.splits)
    from c0 have "(j, c0) \<in> set cs0" by (rule map_of_SomeD)
    with Cons.prems(1) GroupControl have "distinct_keys c0" by auto
    from Cons.IH [OF this g Cons.prems(3), of "anc \<or> d0"] obtain c0' cs' v' d' where
      p: "perform (anc \<or> d0) (p @ [Key k]) Disable c0 = Inr c0'"
      and g': "get p c0' = Some (GroupControl cs' v' d')"
      and rest: "map fst cs' = map fst cs" "k \<notin> set (keys_of v')"
      by blast
    from GroupControl s c0 p g' rest show ?thesis
      by (simp add: map_of_update_same)
  next
    case (ListControl cs0 v0 d0)
    with Cons.prems(2) obtain i where s: "s = Index i" and i: "i < length cs0"
      and g: "get p (cs0 ! i) = Some (GroupControl cs v d)"
      by (cases s) (auto split: if_splits)
    from i Cons.prems(1) ListControl have "distinct_keys (cs0 ! i)" by simp
    from Cons.IH [OF this g Cons.prems(3), of "anc \<or> d0"] obtain c0' cs' v' d' where
      p: "perform (anc \<or> d0) (p @ [Key k]) Disable (cs0 ! i) = Inr c0'"
      and g': "get p c0' = Some (GroupControl cs' v' d')"
      and rest: "map fst cs' = map fst cs" "k \<notin> set (keys_of v')"
      by blast
    from ListControl s i p g' rest show ?thesis by simp
  qed
qed

subsection \<open>The scenarios of the specification\<close>

text \<open>
  Section 8, scenario 7: a group built from \<^verbatim>\<open>{a: 'x', b: 0}\<close> has the value
  \<^verbatim>\<open>{a: 'x', b: 0}\<close>, and \<^verbatim>\<open>{a: 'x'}\<close> once the child \<^verbatim>\<open>b\<close> is disabled.
\<close>

lemma scenario_group_disable:
  "value_of (new_group [(''a'', new_leaf (Str ''x'') False), (''b'', new_leaf (Num 0) False)]) =
     Obj [(''a'', Str ''x''), (''b'', Num 0)] \<and>
   perform False [Key ''b''] Disable
     (new_group [(''a'', new_leaf (Str ''x'') False), (''b'', new_leaf (Num 0) False)]) =
     Inr (GroupControl
            [(''a'', LeafControl (Str ''x'') False), (''b'', LeafControl (Num 0) True)]
            (Obj [(''a'', Str ''x'')]) False)"
  by (simp add: new_group_def new_leaf_def group_value_def)

text \<open>
  Section 8, property 4: disabling a child and enabling it again restores the parent's
  value, also when the child is a group with a disabled child of its own.
\<close>

lemma scenario_disable_enable:
  "perform False [Key ''g''] Disable
     (new_group [(''g'', new_group [(''a'', new_leaf (Str ''x'') False),
                                   (''b'', new_leaf (Num 0) True)])]) =
     Inr (GroupControl
            [(''g'', GroupControl
                      [(''a'', LeafControl (Str ''x'') False), (''b'', LeafControl (Num 0) True)]
                      (Obj []) True)]
            (Obj []) False) \<and>
   perform False [Key ''g''] Enable
     (GroupControl
        [(''g'', GroupControl
                  [(''a'', LeafControl (Str ''x'') False), (''b'', LeafControl (Num 0) True)]
                  (Obj []) True)]
        (Obj []) False) =
     Inr (new_group [(''g'', new_group [(''a'', new_leaf (Str ''x'') False),
                                       (''b'', new_leaf (Num 0) True)])])"
  by (simp add: new_group_def new_leaf_def group_value_def)

text \<open>
  Section 8, scenario 10: \<^verbatim>\<open>setValue\<close> at the root of a group of groups fails with
  ShapeMismatch when a nested key is missing, and succeeds with the full nested shape.
\<close>

lemma scenario_nested_setValue:
  "perform False [] (SetValue (Obj [(''g'', Obj [])]))
     (new_group [(''g'', new_group [(''a'', new_leaf (Str ''x'') False)])]) =
     Inl ShapeMismatch \<and>
   perform False [] (SetValue (Obj [(''g'', Obj [(''a'', Str ''y'')])]))
     (new_group [(''g'', new_group [(''a'', new_leaf (Str ''x'') False)])]) =
     Inr (new_group [(''g'', new_group [(''a'', new_leaf (Str ''y'') False)])])"
  by (simp add: new_group_def new_leaf_def group_value_def get_prop_def)

section \<open>Claims on the control tree\<close>

text \<open>
  C1: in every reachable state of a tree, every Group Control of it, at whatever depth,
  holds as its value the mapping from the names of its currently enabled children to
  their values, in the declared order; the name of a child that is disabled, by its own
  flag or through the group or an ancestor of the group, is not a key of the value.
\<close>

theorem group_value_enabled_children:
  assumes r: "reachable t"
    and n: "(anc, GroupControl cs v d) \<in> set (subcontrols False t)"
  shows "v = Obj (map (\<lambda>(k, c). (k, value_of c))
                   (filter (\<lambda>(k, c). enabled (anc \<or> d) c) cs)) \<and>
         (\<forall>(k, c)\<in>set cs. \<not> enabled (anc \<or> d) c \<longrightarrow> k \<notin> set (keys_of v))"
proof -
  from reachable_invariant [OF r] have ct: "consistent False t" and dt: "distinct_keys t"
    by simp_all
  from consistent_subcontrols [OF ct n] have c: "consistent anc (GroupControl cs v d)" .
  from distinct_keys_subcontrols [OF dt n] have dk: "distinct_keys (GroupControl cs v d)" .
  from c have v: "v = group_value (anc \<or> d) cs" by simp
  from dk have "distinct (map fst cs)" by simp
  with v have "\<forall>(k, c)\<in>set cs. \<not> enabled (anc \<or> d) c \<longrightarrow> k \<notin> set (keys_of v)"
    using disabled_key_absent [of cs _ _ "anc \<or> d"] by auto
  with v show ?thesis by (simp add: group_value_def)
qed

theorem group_value_enabled_children_witness:
  "reachable
     (GroupControl [(''a'', LeafControl (Str ''x'') False), (''b'', LeafControl (Num 0) True)]
        (Obj [(''a'', Str ''x'')]) False) \<and>
   (False,
    GroupControl [(''a'', LeafControl (Str ''x'') False), (''b'', LeafControl (Num 0) True)]
      (Obj [(''a'', Str ''x'')]) False)
     \<in> set (subcontrols False
              (GroupControl
                 [(''a'', LeafControl (Str ''x'') False), (''b'', LeafControl (Num 0) True)]
                 (Obj [(''a'', Str ''x'')]) False)) \<and>
   Obj [(''a'', Str ''x'')] =
     Obj (map (\<lambda>(k, c). (k, value_of c))
            (filter (\<lambda>(k, c). enabled (False \<or> False) c)
               [(''a'', LeafControl (Str ''x'') False), (''b'', LeafControl (Num 0) True)])) \<and>
   ''b'' \<notin> set (keys_of (Obj [(''a'', Str ''x'')]))"
proof -
  let ?t0 = "new_group [(''a'', new_leaf (Str ''x'') False), (''b'', new_leaf (Num 0) False)]"
  let ?cs = "[(''a'', LeafControl (Str ''x'') False), (''b'', LeafControl (Num 0) True)]"
  let ?t1 = "GroupControl ?cs (Obj [(''a'', Str ''x'')]) False"
  have "reachable ?t0"
    by (rule reachable.group) (auto intro: reachable.leaf)
  moreover have "perform False [Key ''b''] Disable ?t0 = Inr ?t1"
    by (simp add: new_group_def new_leaf_def group_value_def)
  ultimately have r: "reachable ?t1" by (rule reachable.step)
  have n: "(False, ?t1) \<in> set (subcontrols False ?t1)" by simp
  from group_value_enabled_children [OF r n] r n show ?thesis
    by (simp add: object_keys_def)
qed

text \<open>
  C2: the value of a group is a partial view over its declared shape. In every reachable
  state the value of every control of the tree, nested groups included, is a value of the
  declared shape with every key of every group optional; and every declared key of every
  group of the tree can be absent: disabling the child of that name is a step to a
  reachable state of the same declared shape in which the key is not in the group's value,
  so that the value is not of the declared shape itself.
\<close>

theorem group_value_partial_view:
  assumes r: "reachable t"
  shows "(\<forall>(anc, n)\<in>set (subcontrols False t). conforms True (declared_shape n) (value_of n)) \<and>
         (\<forall>p cs v d k. get p t = Some (GroupControl cs v d) \<and> k \<in> set (map fst cs) \<longrightarrow>
            (\<exists>t' cs' v' d'. perform False (p @ [Key k]) Disable t = Inr t' \<and> reachable t' \<and>
               declared_shape t' = declared_shape t \<and>
               get p t' = Some (GroupControl cs' v' d') \<and>
               k \<in> set (map fst cs') \<and> k \<notin> set (keys_of v') \<and>
               \<not> conforms False (declared_shape (GroupControl cs' v' d')) v'))"
proof (intro conjI allI impI)
  from reachable_invariant [OF r] have ct: "consistent False t" and dt: "distinct_keys t"
    by simp_all
  show "\<forall>(anc, n)\<in>set (subcontrols False t). conforms True (declared_shape n) (value_of n)"
  proof (clarify)
    fix anc n
    assume n: "(anc, n) \<in> set (subcontrols False t)"
    from consistent_subcontrols [OF ct n] distinct_keys_subcontrols [OF dt n]
    show "conforms True (declared_shape n) (value_of n)" by (rule conforms_value)
  qed
next
  fix p cs v d k
  assume a: "get p t = Some (GroupControl cs v d) \<and> k \<in> set (map fst cs)"
  from reachable_invariant [OF r] have dt: "distinct_keys t" by simp
  from perform_disable_child [OF dt, of p cs v d k False] a obtain t' cs' v' d' where
    p: "perform False (p @ [Key k]) Disable t = Inr t'"
    and g: "get p t' = Some (GroupControl cs' v' d')"
    and keys: "map fst cs' = map fst cs" and k: "k \<notin> set (keys_of v')"
    by blast
  from r p have r': "reachable t'" by (rule reachable.step)
  from keys a have k': "k \<in> set (map fst cs')" by simp
  from missing_key_not_full [OF k' k]
  have "\<not> conforms False (declared_shape (GroupControl cs' v' d')) v'" .
  with p r' perform_shape [OF p] g k' k
  show "\<exists>t' cs' v' d'. perform False (p @ [Key k]) Disable t = Inr t' \<and> reachable t' \<and>
               declared_shape t' = declared_shape t \<and>
               get p t' = Some (GroupControl cs' v' d') \<and>
               k \<in> set (map fst cs') \<and> k \<notin> set (keys_of v') \<and>
               \<not> conforms False (declared_shape (GroupControl cs' v' d')) v'"
    by blast
qed

theorem group_value_partial_view_witness:
  "reachable (new_group [(''b'', new_leaf (Num 0) False)]) \<and>
   conforms True (declared_shape (new_group [(''b'', new_leaf (Num 0) False)]))
     (value_of (new_group [(''b'', new_leaf (Num 0) False)])) \<and>
   (\<exists>t' cs' v' d'.
      perform False ([] @ [Key ''b'']) Disable (new_group [(''b'', new_leaf (Num 0) False)]) =
        Inr t' \<and>
      reachable t' \<and>
      declared_shape t' = declared_shape (new_group [(''b'', new_leaf (Num 0) False)]) \<and>
      get [] t' = Some (GroupControl cs' v' d') \<and>
      ''b'' \<in> set (map fst cs') \<and> ''b'' \<notin> set (keys_of v') \<and>
      \<not> conforms False (declared_shape (GroupControl cs' v' d')) v')"
proof -
  let ?t = "new_group [(''b'', new_leaf (Num 0) False)]"
  have r: "reachable ?t"
    by (rule reachable.group) (auto intro: reachable.leaf)
  note pv = group_value_partial_view [OF r]
  have n: "(False, ?t) \<in> set (subcontrols False ?t)"
    by (simp add: new_group_def)
  from pv n have a: "conforms True (declared_shape ?t) (value_of ?t)" by blast
  have g: "get [] ?t =
             Some (GroupControl [(''b'', new_leaf (Num 0) False)]
                     (group_value False [(''b'', new_leaf (Num 0) False)]) False) \<and>
           ''b'' \<in> set (map fst [(''b'', new_leaf (Num 0) False)])"
    by (simp add: new_group_def)
  from pv g have
    "\<exists>t' cs' v' d'. perform False ([] @ [Key ''b'']) Disable ?t = Inr t' \<and> reachable t' \<and>
       declared_shape t' = declared_shape ?t \<and>
       get [] t' = Some (GroupControl cs' v' d') \<and>
       ''b'' \<in> set (map fst cs') \<and> ''b'' \<notin> set (keys_of v') \<and>
       \<not> conforms False (declared_shape (GroupControl cs' v' d')) v'"
    by blast
  with r a show ?thesis by blast
qed

section \<open>Claims on the builder\<close>

text \<open>
  C3, as stated: for every child configuration that is an existing control instance (any
  \<^verbatim>\<open>AbstractControl\<close>), the normalization returns that exact instance, without wrapping it
  in a new leaf control. It fails for an instance of an \<^verbatim>\<open>AbstractControl\<close> subclass that
  is none of the built-in classes: \<open>isBuiltinControl\<close> is false for it, the last branch
  takes it for a bare value, and the result is a new \<^verbatim>\<open>FormControl\<close> whose state is the
  instance.
\<close>

theorem createControl_custom_wrapped:
  "createControl [CustomControl 0] (Ctl 0) =
     ([CustomControl 0, FormControl (Ctl 0) Undefined Undefined], Ctl 1) \<and>
   snd (createControl [CustomControl 0] (Ctl 0)) \<noteq> Ctl 0"
  by (simp add: createControl_def control_def new_def lookup_def)

text \<open>
  C3, amended: for every child configuration that is an instance of \<^verbatim>\<open>FormControl\<close>,
  \<^verbatim>\<open>FormGroup\<close> or \<^verbatim>\<open>FormArray\<close>, \<open>createControl\<close> returns that exact instance and
  leaves the store as it is; hence \<open>array\<close> has it at the same index of the controls it
  hands to \<^verbatim>\<open>FormArray\<close>, and \<open>group_fb\<close> under the same key of the controls it hands
  to \<^verbatim>\<open>FormGroup\<close> (under every key that an assignment adds, that is every key but
  \<^verbatim>\<open>__proto__\<close>).
\<close>

theorem createControl_passes_builtin:
  assumes b: "isBuiltinControl h c"
  shows "createControl h c = (h, c) \<and>
         (\<forall>cs i v a. i < length cs \<and> cs ! i = c \<longrightarrow>
            (\<exists>h1 controls. array h cs v a = (h1 @ [FormArray controls v a], Ctl (length h1)) \<and>
               controls ! i = c)) \<and>
         (\<forall>cfg k opts. distinct (map fst cfg) \<and> (k, c) \<in> set cfg \<and> k \<noteq> ''__proto__'' \<longrightarrow>
            (\<exists>h1 controls. group_fb h cfg opts =
                 (h1 @ [FormGroup controls (group_options opts)], Ctl (length h1)) \<and>
               get_prop controls k = c))"
proof (intro conjI allI impI)
  show "createControl h c = (h, c)"
    using b by (simp add: createControl_cases)
next
  fix cs :: "jsval list" and i v a
  assume i: "i < length cs \<and> cs ! i = c"
  obtain h1 rs where am: "array_map h cs = (h1, rs)" by (cases "array_map h cs")
  from i b have "rs ! i = c"
    using array_map_builtin_nth [OF am, of i] by simp
  with array_shape [OF am]
  show "\<exists>h1 controls. array h cs v a = (h1 @ [FormArray controls v a], Ctl (length h1)) \<and>
          controls ! i = c"
    by blast
next
  fix cfg :: jsobj and k opts
  assume a: "distinct (map fst cfg) \<and> (k, c) \<in> set cfg \<and> k \<noteq> ''__proto__''"
  then have d: "distinct (map fst cfg)" and kc: "(k, c) \<in> set cfg"
    and np: "k \<noteq> ''__proto__''" by simp_all
  obtain h1 rs where am: "array_map h (map snd cfg) = (h1, rs)"
    by (cases "array_map h (map snd cfg)")
  from kc obtain i where i: "i < length cfg" "cfg ! i = (k, c)"
    by (auto simp: in_set_conv_nth)
  from array_map_length [OF am] have len: "length rs = length cfg" by simp
  from i b have "rs ! i = c"
    using array_map_builtin_nth [OF am, of i] by simp
  with i len have "(k, c) \<in> set (zip (map fst cfg) rs)"
    by (auto simp: in_set_conv_nth intro!: exI [of _ i])
  with np have "(k, c) \<in> set (filter (\<lambda>(k, r). k \<noteq> ''__proto__'') (zip (map fst cfg) rs))"
    by simp
  moreover from d len have "distinct (map fst (zip (map fst cfg) rs))" by simp
  then have "distinct (map fst (filter (\<lambda>(k, r). k \<noteq> ''__proto__'') (zip (map fst cfg) rs)))"
    by (rule distinct_map_filter)
  ultimately have
    "get_prop (filter (\<lambda>(k, r). k \<noteq> ''__proto__'') (zip (map fst cfg) rs)) k = c"
    by (rule get_prop_distinct [rotated])
  with group_fb_shape [OF d am]
  show "\<exists>h1 controls. group_fb h cfg opts =
            (h1 @ [FormGroup controls (group_options opts)], Ctl (length h1)) \<and>
          get_prop controls k = c"
    by blast
qed

theorem createControl_passes_builtin_witness:
  "isBuiltinControl [FormControl (Str ''x'') Null Null] (Ctl 0) \<and>
   createControl [FormControl (Str ''x'') Null Null] (Ctl 0) =
     ([FormControl (Str ''x'') Null Null], Ctl 0)"
proof -
  have b: "isBuiltinControl [FormControl (Str ''x'') Null Null] (Ctl 0)"
    by (simp add: lookup_def)
  from createControl_passes_builtin [OF b] b show ?thesis by simp
qed

text \<open>
  C4: for every controls configuration and all values \<open>f\<close> and \<open>g\<close>, \<open>group_fb\<close> with the
  legacy options \<^verbatim>\<open>{validator: f, asyncValidator: g}\<close> constructs what it constructs with the
  options \<^verbatim>\<open>{validators: f, asyncValidators: g}\<close>: the same store and the same
  \<^verbatim>\<open>FormGroup\<close>, with the same controls, validators, async validators and update trigger.
\<close>

theorem group_legacy_alias:
  "group_fb h cfg (Some [(''validator'', f), (''asyncValidator'', g)]) =
   group_fb h cfg (Some [(''validators'', f), (''asyncValidators'', g)])"
proof -
  have "group_options (Some [(''validator'', f), (''asyncValidator'', g)]) =
        group_options (Some [(''validators'', f), (''asyncValidators'', g)])"
    by (cases "f = Undefined"; cases "g = Undefined")
       (simp_all add: group_options_def isAbstractControlOptions_def get_prop_def)
  then show ?thesis
    by (simp add: group_fb_def)
qed

text \<open>
  C5: for a child configuration that is an array \<^verbatim>\<open>[v, ...]\<close>, \<open>createControl\<close> constructs
  a new \<^verbatim>\<open>FormControl\<close> from \<open>v\<close>, from the element at index 1 as its validator when there
  is one and \<^verbatim>\<open>null\<close> otherwise, and from the element at index 2 as its async validator
  when there is one and \<^verbatim>\<open>null\<close> otherwise.
\<close>

theorem createControl_tuple:
  "createControl h (Arr (v # rest)) =
     (h @ [FormControl v (case rest of [] \<Rightarrow> Null | f # _ \<Rightarrow> f)
                         (case rest of _ # g # _ \<Rightarrow> g | _ \<Rightarrow> Null)],
      Ctl (length h))"
  by (simp add: createControl_def control_def new_def js_index_def Let_def
           split: list.splits)

text \<open>
  C6: for a child configuration that is neither an instance of a built-in control class
  nor an array, \<open>createControl\<close> constructs a new \<^verbatim>\<open>FormControl\<close> with the configuration
  as its state and with neither a validator nor an async validator (both arguments are
  left out).
\<close>

theorem createControl_bare_value:
  "\<not> isBuiltinControl h c \<Longrightarrow> \<not> isArray c \<Longrightarrow>
   createControl h c = (h @ [FormControl c Undefined Undefined], Ctl (length h))"
  by (cases c) (simp_all add: createControl_def control_def new_def)

theorem createControl_bare_value_witness:
  "\<not> isBuiltinControl [] (Str ''x'') \<and> \<not> isArray (Str ''x'') \<and>
   createControl [] (Str ''x'') = ([FormControl (Str ''x'') Undefined Undefined], Ctl 0)"
  using createControl_bare_value [of "[]" "Str ''x''"] by simp

text \<open>
  C7: \<open>group_fb\<close> is to construct a \<^verbatim>\<open>FormGroup\<close> whose controls have exactly the keys
  of the configuration, each with the normalization of its entry. At a configuration
  with the own key \<^verbatim>\<open>__proto__\<close> (as \<^verbatim>\<open>JSON.parse('{"a": 1, "__proto__": "x"}')\<close>
  gives) the code does not: \<^verbatim>\<open>Object.keys\<close> lists the key and \<open>createControl\<close>
  constructs a \<^verbatim>\<open>FormControl\<close> for its entry, but the assignment adds no property, and
  the controls handed to \<^verbatim>\<open>FormGroup\<close> have the key \<^verbatim>\<open>a\<close> only. (Everywhere else
  the claim holds: \<open>normalization_per_child\<close>.)
\<close>

theorem group_fb_loses_proto_key:
  "group_fb [] [(''a'', Num 1), (''__proto__'', Str ''x'')] None =
     ([FormControl (Num 1) Undefined Undefined,
       FormControl (Str ''x'') Undefined Undefined,
       FormGroup [(''a'', Ctl 0)]
         \<lparr>asyncValidators = Null, updateOn = Undefined, validators = Null\<rparr>],
      Ctl 2)"
  by (simp add: group_fb_def reduceControls_def object_keys_def get_prop_def set_prop_def
        createControl_def control_def new_def group_options_def)

text \<open>
  C8, as stated: a malformed child configuration of an unsupported shape makes the
  construction fail with a configuration error instead of producing a control. The
  builder has no failing branch: an empty tuple becomes a \<^verbatim>\<open>FormControl\<close> whose state is
  \<^verbatim>\<open>undefined\<close>, and the fourth element of a tuple is dropped without notice.
\<close>

theorem createControl_malformed_accepted:
  "createControl [] (Arr []) = ([FormControl Undefined Null Null], Ctl 0) \<and>
   createControl [] (Arr [Str ''x'', Fn 1, Fn 2, Fn 3]) =
     ([FormControl (Str ''x'') (Fn 1) (Fn 2)], Ctl 0)"
  by (simp add: createControl_def control_def new_def js_index_def)

text \<open>
  C8, amended: the factory raises no configuration error of its own for a malformed child
  configuration, nor any other error: it checks no shape and hands every configuration
  that is not a built-in control to the \<^verbatim>\<open>FormControl\<close> constructor. With what that
  constructor throws as a parameter, \<open>createControl_with\<close> fails exactly when the
  constructor throws on the arguments the factory hands it, and with that error; it
  raises no ConfigurationError unless the constructor does; and when it returns, it
  returns what \<open>createControl\<close> does.
\<close>

theorem createControl_fails_in_constructor_only:
  "(createControl_with throws h c = Inl e \<longleftrightarrow>
      \<not> isBuiltinControl h c \<and>
      (case c of
         Arr xs \<Rightarrow>
           throws (js_index xs 0) (if length xs > 1 then js_index xs 1 else Null)
             (if length xs > 2 then js_index xs 2 else Null)
       | _ \<Rightarrow> throws c Undefined Undefined) = Some e) \<and>
   ((\<forall>s v a. throws s v a \<noteq> Some ConfigurationError) \<longrightarrow>
      createControl_with throws h c \<noteq> Inl ConfigurationError) \<and>
   (\<forall>r. createControl_with throws h c = Inr r \<longrightarrow> r = createControl h c)"
proof (intro conjI)
  show "createControl_with throws h c = Inl e \<longleftrightarrow>
      \<not> isBuiltinControl h c \<and>
      (case c of
         Arr xs \<Rightarrow>
           throws (js_index xs 0) (if length xs > 1 then js_index xs 1 else Null)
             (if length xs > 2 then js_index xs 2 else Null)
       | _ \<Rightarrow> throws c Undefined Undefined) = Some e"
    by (cases c)
       (auto simp: createControl_with_def control_with_def Let_def split: option.splits)
  show "(\<forall>s v a. throws s v a \<noteq> Some ConfigurationError) \<longrightarrow>
      createControl_with throws h c \<noteq> Inl ConfigurationError"
    by (cases c)
       (auto simp: createControl_with_def control_with_def Let_def split: option.splits)
  show "\<forall>r. createControl_with throws h c = Inr r \<longrightarrow> r = createControl h c"
    by (auto dest: createControl_with_Inr)
qed

theorem createControl_fails_in_constructor_only_witness:
  "(\<forall>(s::jsval) (v::jsval) (a::jsval).
      (if v = Num 5 then Some (ConstructorError (Str ''TypeError'')) else None)
        \<noteq> Some ConfigurationError) \<and>
   createControl_with
     (\<lambda>s v a. if v = Num 5 then Some (ConstructorError (Str ''TypeError'')) else None)
     [] (Arr [Str ''x'', Num 5]) = Inl (ConstructorError (Str ''TypeError'')) \<and>
   createControl_with
     (\<lambda>s v a. if v = Num 5 then Some (ConstructorError (Str ''TypeError'')) else None)
     [] (Arr [Str ''x'', Num 5]) \<noteq> Inl ConfigurationError \<and>
   createControl_with
     (\<lambda>s v a. if v = Num 5 then Some (ConstructorError (Str ''TypeError'')) else None)
     [] (Arr []) = Inr (createControl [] (Arr []))"
proof -
  let ?throws = "\<lambda>(s::jsval) (v::jsval) (a::jsval).
    if v = Num 5 then Some (ConstructorError (Str ''TypeError'')) else None"
  have never: "\<forall>s v a. ?throws s v a \<noteq> Some ConfigurationError" by simp
  note t1 = createControl_fails_in_constructor_only
              [of ?throws "[]" "Arr [Str ''x'', Num 5]" "ConstructorError (Str ''TypeError'')"]
  note t2 = createControl_fails_in_constructor_only
              [of ?throws "[]" "Arr []" "ConstructorError (Str ''TypeError'')"]
  from t1 have a: "createControl_with ?throws [] (Arr [Str ''x'', Num 5]) =
                     Inl (ConstructorError (Str ''TypeError''))"
    by (simp add: js_index_def)
  from t1 never have b: "createControl_with ?throws [] (Arr [Str ''x'', Num 5]) \<noteq>
                     Inl ConfigurationError"
    by blast
  have "createControl_with ?throws [] (Arr []) =
          Inr ([FormControl Undefined Null Null], Ctl 0)"
    by (simp add: createControl_with_def control_with_def new_def js_index_def)
  with t2 have c: "createControl_with ?throws [] (Arr []) = Inr (createControl [] (Arr []))"
    by simp
  from never a b c show ?thesis by simp
qed

text \<open>
  C9: when one of \<^verbatim>\<open>validators\<close>, \<^verbatim>\<open>asyncValidators\<close>, \<^verbatim>\<open>updateOn\<close> of the options is not
  \<^verbatim>\<open>undefined\<close>, what \<open>group_fb\<close> constructs depends on these three properties only: any
  other options object with the same three, whatever its \<^verbatim>\<open>validator\<close> and
  \<^verbatim>\<open>asyncValidator\<close>, gives the same result, and the options handed to \<^verbatim>\<open>FormGroup\<close> are
  read from the three.
\<close>

theorem group_modern_options_only:
  assumes "isAbstractControlOptions opts"
    and "get_prop opts' ''validators'' = get_prop opts ''validators''"
    and "get_prop opts' ''asyncValidators'' = get_prop opts ''asyncValidators''"
    and "get_prop opts' ''updateOn'' = get_prop opts ''updateOn''"
  shows "group_fb h cfg (Some opts') = group_fb h cfg (Some opts) \<and>
         group_options (Some opts) =
           \<lparr>asyncValidators =
              (if neq_null (get_prop opts ''asyncValidators'')
               then get_prop opts ''asyncValidators'' else Null),
            updateOn =
              (if neq_null (get_prop opts ''updateOn'')
               then get_prop opts ''updateOn'' else Undefined),
            validators =
              (if neq_null (get_prop opts ''validators'')
               then get_prop opts ''validators'' else Null)\<rparr>"
proof -
  from assms have "isAbstractControlOptions opts'"
    by (simp add: isAbstractControlOptions_def)
  with assms show ?thesis
    by (simp add: group_fb_def group_options_def)
qed

theorem group_modern_options_only_witness:
  "isAbstractControlOptions [(''validators'', Fn 1)] \<and>
   group_fb [] [] (Some [(''validator'', Fn 2), (''validators'', Fn 1),
                         (''asyncValidator'', Fn 3)]) =
     group_fb [] [] (Some [(''validators'', Fn 1)]) \<and>
   group_options (Some [(''validator'', Fn 2), (''validators'', Fn 1),
                        (''asyncValidator'', Fn 3)]) =
     \<lparr>asyncValidators = Null, updateOn = Undefined, validators = Fn 1\<rparr>"
proof -
  have a: "isAbstractControlOptions [(''validators'', Fn 1)]"
    by (simp add: isAbstractControlOptions_def get_prop_def)
  have b: "isAbstractControlOptions
             [(''validator'', Fn 2), (''validators'', Fn 1), (''asyncValidator'', Fn 3)]"
    by (simp add: isAbstractControlOptions_def get_prop_def)
  from group_modern_options_only
         [of "[(''validators'', Fn 1)]"
             "[(''validator'', Fn 2), (''validators'', Fn 1), (''asyncValidator'', Fn 3)]"
             "[]" "[]", OF a]
  have "group_fb [] [] (Some [(''validator'', Fn 2), (''validators'', Fn 1),
                              (''asyncValidator'', Fn 3)]) =
        group_fb [] [] (Some [(''validators'', Fn 1)])"
    by (simp add: get_prop_def)
  moreover have "group_options (Some [(''validator'', Fn 2), (''validators'', Fn 1),
                        (''asyncValidator'', Fn 3)]) =
     \<lparr>asyncValidators = Null, updateOn = Undefined, validators = Fn 1\<rparr>"
    using b by (simp add: group_options_def get_prop_def)
  ultimately show ?thesis using a by simp
qed

text \<open>
  C10: when none of \<^verbatim>\<open>validators\<close>, \<^verbatim>\<open>asyncValidators\<close>, \<^verbatim>\<open>updateOn\<close> of the options is
  other than \<^verbatim>\<open>undefined\<close>, the options are read as the legacy shape and the
  \<^verbatim>\<open>FormGroup\<close> that \<open>group_fb\<close> constructs receives \<^verbatim>\<open>undefined\<close> as its update
  trigger.
\<close>

theorem group_legacy_no_updateOn:
  assumes "\<not> isAbstractControlOptions opts"
  shows "\<exists>h1 controls validator asyncValidator.
           group_fb h cfg (Some opts) =
             (h1 @ [FormGroup controls
                      \<lparr>asyncValidators = asyncValidator, updateOn = Undefined,
                       validators = validator\<rparr>],
              Ctl (length h1))"
  using assms
  by (simp add: group_fb_def group_options_def new_def split: prod.splits)

theorem group_legacy_no_updateOn_witness:
  "\<not> isAbstractControlOptions [(''validator'', Fn 1)] \<and>
   (\<exists>h1 controls validator asyncValidator.
      group_fb [] [] (Some [(''validator'', Fn 1)]) =
        (h1 @ [FormGroup controls
                 \<lparr>asyncValidators = asyncValidator, updateOn = Undefined,
                  validators = validator\<rparr>],
         Ctl (length h1)))"
proof -
  have a: "\<not> isAbstractControlOptions [(''validator'', Fn 1)]"
    by (simp add: isAbstractControlOptions_def get_prop_def)
  from group_legacy_no_updateOn [OF a, of "[]" "[]"] a show ?thesis by blast
qed

end
